(* ===== verification/Prelude.thy ===== *)
theory Prelude
  imports Main "HOL-Library.Multiset" "HOL-Library.Product_Lexorder"
begin

text \<open>
  Shared vocabulary of the Battleship development: the coordinate type of
  \<^verbatim>\<open>src/src/utils.py\<close> (Python tuples \<open>(row, col)\<close> of unbounded
  integers), the exceptions the program raises, the named fact collections
  the component theories feed, and generic lemmas on lists, sets and
  \<open>find\<close> that several components use.
\<close>

type_synonym coord = "int \<times> int"

text \<open>
  Python exceptions that the modelled code raises or catches:
  \<open>ValueError\<close> (\<^verbatim>\<open>int()\<close> on a malformed string),
  \<open>IndexError\<close> (\<^verbatim>\<open>s[0]\<close> on an empty string), \<open>KeyError\<close> (a
  dictionary without the key), \<open>TypeError\<close> (\<^verbatim>\<open>int(None)\<close>), and the bare
  \<^verbatim>\<open>Exception("No valid moves available")\<close> of the bot.
\<close>

datatype py_error = ValueError | IndexError | KeyError | TypeError | EOFError | FileNotFoundError | NoValidMoves

named_theorems board_simps "evaluation rules for board geometry"
named_theorems ledger_simps "rules for the shot ledgers of the game state"

subsection \<open>Generic lemmas\<close>

lemma find_Some_in_set [intro]: "find P xs = Some x \<Longrightarrow> x \<in> set xs"
  by (induction xs) (auto split: if_splits)

lemma find_Some_holds [intro]: "find P xs = Some x \<Longrightarrow> P x"
  by (induction xs) (auto split: if_splits)

lemma find_Some_D: "find P xs = Some x \<Longrightarrow> x \<in> set xs \<and> P x"
  by (induction xs) (auto split: if_splits)

lemma find_None_none: "find P xs = None \<Longrightarrow> x \<in> set xs \<Longrightarrow> \<not> P x"
  by (simp add: find_None_iff)

lemma find_exists_Some:
  assumes "x \<in> set xs" and "P x"
  shows "\<exists>y. find P xs = Some y"
  using assms by (cases "find P xs") (auto simp: find_None_iff)

lemma find_append:
  "find P (xs @ ys) = (case find P xs of None \<Rightarrow> find P ys | Some x \<Rightarrow> Some x)"
  by (induction xs) auto

lemma find_upt_Some_least:
  "find P [i..<j] = Some k \<Longrightarrow> i \<le> k \<and> k < j \<and> P k \<and> (\<forall>m. i \<le> m \<and> m < k \<longrightarrow> \<not> P m)"
proof (induction j arbitrary: k)
  case 0
  then show ?case by simp
next
  case (Suc j)
  show ?case
  proof (cases "i \<le> j")
    case True
    then have split: "[i..<Suc j] = [i..<j] @ [j]" by simp
    show ?thesis
    proof (cases "find P [i..<j]")
      case None
      with Suc.prems split have "k = j" and "P j"
        by (auto simp: find_append split: if_splits)
      with None True show ?thesis by (auto simp: find_None_iff)
    next
      case (Some k')
      with Suc.prems split have "k = k'" by (simp add: find_append)
      with Suc.IH Some show ?thesis by auto
    qed
  next
    case False
    with Suc.prems show ?thesis by simp
  qed
qed

lemma mset_swap_elems [simp]:
  "i < length xs \<Longrightarrow> j < length xs \<Longrightarrow> mset (xs[i := xs ! j, j := xs ! i]) = mset xs"
  by (metis mset_swap)

lemma list_all_id_nth: "list_all id xs \<longleftrightarrow> (\<forall>i < length xs. xs ! i)"
  by (simp add: list_all_length)

lemma dropWhile_all_not: "\<forall>c \<in> set s. \<not> P c \<Longrightarrow> dropWhile P s = s"
  by (cases s) auto

lemma filter_id_all: "\<forall>c \<in> set s. P c \<Longrightarrow> filter P s = s"
  by (induction s) auto

lemma dropWhile_idem: "dropWhile P (dropWhile P xs) = dropWhile P xs"
  by (induction xs) auto

lemma those_map_Some_iff:
  "those (map f xs) = Some ys \<longleftrightarrow> list_all2 (\<lambda>x y. f x = Some y) xs ys"
  by (induction xs arbitrary: ys) (auto split: option.splits simp: list_all2_Cons1)

end
