(* ===== verification/Geometry.thy ===== *)
theory Geometry
  imports Prelude
begin

text \<open>
  Board geometry, from \<^verbatim>\<open>src/src/utils.py\<close>: the board size and the
  fleet's ship sizes, the bounds test that \<^verbatim>\<open>get_adjacent_cells\<close>,
  \<^verbatim>\<open>_get_smart_target_move\<close> and \<^verbatim>\<open>get_player_move\<close> write inline,
  the 8- and 4-neighbourhoods (\<^verbatim>\<open>get_adjacent_cells\<close>) and the ring
  around a ship (\<^verbatim>\<open>get_surrounding_cells\<close>).  The lemmas characterise
  both as sets of in-bounds neighbours and fix their order and length.
\<close>

definition BOARD_SIZE :: int where
  "BOARD_SIZE = 10"

definition SHIP_SIZES :: "nat list" where
  "SHIP_SIZES = [4, 3, 3, 2, 2, 2, 1, 1, 1, 1]"

definition in_bounds :: "coord \<Rightarrow> bool" where
  "in_bounds c \<longleftrightarrow> 0 \<le> fst c \<and> fst c < BOARD_SIZE \<and> 0 \<le> snd c \<and> snd c < BOARD_SIZE"

text \<open>The direction list of \<^verbatim>\<open>get_adjacent_cells\<close>, in the source's order.\<close>

definition directions :: "bool \<Rightarrow> (int \<times> int) list" where
  "directions include_diagonal =
     (if include_diagonal
      then [(-1, -1), (-1, 0), (-1, 1), (0, -1), (0, 1), (1, -1), (1, 0), (1, 1)]
      else [(-1, 0), (0, -1), (0, 1), (1, 0)])"

text \<open>The loop over the directions keeps the in-bounds cells, in order.\<close>

definition get_adjacent_cells :: "int \<Rightarrow> int \<Rightarrow> bool \<Rightarrow> coord list" where
  "get_adjacent_cells row col include_diagonal =
     filter in_bounds (map (\<lambda>(dr, dc). (row + dr, col + dc)) (directions include_diagonal))"

definition get_surrounding_cells :: "coord set \<Rightarrow> coord set" where
  "get_surrounding_cells ship_cells =
     (\<Union>cell \<in> ship_cells. set (get_adjacent_cells (fst cell) (snd cell) True)) - ship_cells"

text \<open>
  Abstract neighbourhoods, the specification's words: two distinct cells whose rows
  and columns differ by at most one (8-neighbours, diagonals included), or which
  differ by one in exactly one coordinate (4-neighbours).
\<close>

definition neighbour8 :: "coord \<Rightarrow> coord \<Rightarrow> bool" where
  "neighbour8 a b \<longleftrightarrow> a \<noteq> b \<and> \<bar>fst a - fst b\<bar> \<le> 1 \<and> \<bar>snd a - snd b\<bar> \<le> 1"

definition neighbour4 :: "coord \<Rightarrow> coord \<Rightarrow> bool" where
  "neighbour4 a b \<longleftrightarrow> \<bar>fst a - fst b\<bar> + \<bar>snd a - snd b\<bar> = 1"

lemmas geometry_defs [board_simps] = BOARD_SIZE_def in_bounds_def directions_def
  get_adjacent_cells_def

subsection \<open>Neighbourhoods\<close>

lemma abs_le_one_cases: "\<bar>x :: int\<bar> \<le> 1 \<Longrightarrow> x = -1 \<or> x = 0 \<or> x = 1"
  by arith

lemma neighbour8_sym: "neighbour8 a b \<longleftrightarrow> neighbour8 b a"
  by (auto simp: neighbour8_def abs_minus_commute)

lemma neighbour4_imp_neighbour8: "neighbour4 a b \<Longrightarrow> neighbour8 a b"
  by (auto simp: neighbour4_def neighbour8_def)

lemma set_adjacent_cells:
  "set (get_adjacent_cells r c d) =
     {p \<in> (\<lambda>(dr, dc). (r + dr, c + dc)) ` set (directions d). in_bounds p}"
  by (auto simp: get_adjacent_cells_def)

lemma neighbour8_shift:
  "neighbour8 (r, c) (r + dr, c + dc) \<longleftrightarrow> (dr, dc) \<in> set (directions True)"
proof
  assume "neighbour8 (r, c) (r + dr, c + dc)"
  then have "dr = -1 \<or> dr = 0 \<or> dr = 1" "dc = -1 \<or> dc = 0 \<or> dc = 1" "(dr, dc) \<noteq> (0, 0)"
    by (auto simp: neighbour8_def intro: abs_le_one_cases)
  then show "(dr, dc) \<in> set (directions True)"
    by (auto simp: directions_def)
qed (auto simp: directions_def neighbour8_def)

lemma neighbour4_shift:
  "neighbour4 (r, c) (r + dr, c + dc) \<longleftrightarrow> (dr, dc) \<in> set (directions False)"
proof
  assume "neighbour4 (r, c) (r + dr, c + dc)"
  then have "\<bar>dr\<bar> + \<bar>dc\<bar> = 1" by (simp add: neighbour4_def)
  then show "(dr, dc) \<in> set (directions False)"
    by (auto simp: directions_def abs_if split: if_splits)
qed (auto simp: directions_def neighbour4_def)

lemma shift_cases:
  obtains dr dc where "(p :: coord) = (r + dr, c + dc)"
  using that [of "fst p - r" "snd p - c"] by (cases p) simp

lemma shift_image:
  "(r + dr, c + dc) \<in> (\<lambda>(a, b). (r + a, c + b)) ` S \<longleftrightarrow> (dr, dc) \<in> (S :: (int \<times> int) set)"
  by (auto simp: image_iff intro!: bexI [where x = "(dr, dc)"])

lemma set_adjacent8:
  "set (get_adjacent_cells r c True) = {p. in_bounds p \<and> neighbour8 (r, c) p}"
proof (intro set_eqI)
  fix p :: coord
  obtain dr dc where p: "p = (r + dr, c + dc)" by (rule shift_cases)
  show "p \<in> set (get_adjacent_cells r c True) \<longleftrightarrow> p \<in> {p. in_bounds p \<and> neighbour8 (r, c) p}"
    by (simp add: set_adjacent_cells p shift_image neighbour8_shift conj_commute)
qed

lemma set_adjacent4:
  "set (get_adjacent_cells r c False) = {p. in_bounds p \<and> neighbour4 (r, c) p}"
proof (intro set_eqI)
  fix p :: coord
  obtain dr dc where p: "p = (r + dr, c + dc)" by (rule shift_cases)
  show "p \<in> set (get_adjacent_cells r c False) \<longleftrightarrow> p \<in> {p. in_bounds p \<and> neighbour4 (r, c) p}"
    by (simp add: set_adjacent_cells p shift_image neighbour4_shift conj_commute)
qed

lemma adjacent_in_bounds: "p \<in> set (get_adjacent_cells r c d) \<Longrightarrow> in_bounds p"
  by (simp add: set_adjacent_cells)

lemma distinct_adjacent: "distinct (get_adjacent_cells r c d)"
  by (simp add: get_adjacent_cells_def directions_def distinct_map inj_on_def)

lemma length_adjacent: "length (get_adjacent_cells r c d) \<le> (if d then 8 else 4)"
proof -
  have "length (get_adjacent_cells r c d) \<le> length (directions d)"
    unfolding get_adjacent_cells_def by (metis length_filter_le length_map)
  then show ?thesis by (cases d) (simp_all add: directions_def)
qed

subsection \<open>The ring around a ship\<close>

lemma get_surrounding_cells_eq:
  "get_surrounding_cells S = {p. in_bounds p \<and> p \<notin> S \<and> (\<exists>q \<in> S. neighbour8 q p)}"
  by (auto simp: get_surrounding_cells_def set_adjacent8)

lemma surrounding_in_bounds: "p \<in> get_surrounding_cells S \<Longrightarrow> in_bounds p"
  by (simp add: get_surrounding_cells_eq)

lemma surrounding_disjoint: "get_surrounding_cells S \<inter> S = {}"
  by (auto simp: get_surrounding_cells_eq)

lemma surrounding_mono: "S \<subseteq> T \<Longrightarrow> get_surrounding_cells S - T \<subseteq> get_surrounding_cells T"
  by (auto simp: get_surrounding_cells_eq)

end
