(* ===== verification/Placement.thy ===== *)
theory Placement
  imports Geometry
begin

text \<open>
  Fleet placement rules: \<^verbatim>\<open>ships_touch\<close> of \<^verbatim>\<open>src/src/utils.py\<close> and
  \<^verbatim>\<open>validate_ship_shape\<close> of \<^verbatim>\<open>src/src/ship_input.py\<close>, the checks
  of one placement step of \<^verbatim>\<open>get_player_ships\<close>, and the specification's
  notion of a valid fleet (straight in-bounds ships of the configured sizes, no two
  sharing a cell or touching, diagonals included).  The lemmas characterise both
  checks by that specification and show that an accepted placement keeps the
  fleet valid.
\<close>

fun ships_touch :: "coord set \<Rightarrow> coord set list \<Rightarrow> bool" where
  "ships_touch ship_cells [] = False"
| "ships_touch ship_cells (ship # all_ships) =
     ((\<exists>cell \<in> ship_cells. \<exists>adj \<in> set (get_adjacent_cells (fst cell) (snd cell) True). adj \<in> ship)
      \<or> ships_touch ship_cells all_ships)"

definition validate_ship_shape :: "coord list \<Rightarrow> nat \<Rightarrow> bool" where
  "validate_ship_shape coords expected_size =
     (if length coords \<noteq> expected_size then False
      else if expected_size = 1 then True
      else
        let coords' = sort (remdups coords) in
        if length coords' \<noteq> expected_size then False
        else
          let rows = map fst coords'; cols = map snd coords' in
          if length (remdups rows) = 1 then cols = [Min (set cols)..Max (set cols)]
          else if length (remdups cols) = 1 then rows = [Min (set rows)..Max (set rows)]
          else False)"

text \<open>
  The checks of one iteration of the placement loop of \<^verbatim>\<open>get_player_ships\<close>,
  once the input has been parsed: an empty parse, a bad shape, an overlap with the
  cells placed so far, or contact with a placed ship rejects the input (the loop
  prints a message and prompts again); otherwise the ship is appended and its
  cells join \<^verbatim>\<open>placed_cells\<close>.
\<close>

datatype placement_error = InvalidFormat | InvalidShape | ShipOverlap | ShipsTouching

definition place_ship ::
  "coord list list \<Rightarrow> coord set \<Rightarrow> nat \<Rightarrow> coord list \<Rightarrow>
     placement_error + (coord list list \<times> coord set)" where
  "place_ship ships placed_cells ship_size coords =
     (if coords = [] then Inl InvalidFormat
      else if \<not> validate_ship_shape coords ship_size then Inl InvalidShape
      else
        let ship_set = set coords in
        if ship_set \<inter> placed_cells \<noteq> {} then Inl ShipOverlap
        else if ships_touch ship_set (map set ships) then Inl ShipsTouching
        else Inr (ships @ [coords], placed_cells \<union> ship_set))"

subsection \<open>Specification of a valid fleet\<close>

definition hrun :: "int \<Rightarrow> int \<Rightarrow> nat \<Rightarrow> coord set" where
  "hrun r c n = {r} \<times> {c..<c + int n}"

definition vrun :: "int \<Rightarrow> int \<Rightarrow> nat \<Rightarrow> coord set" where
  "vrun r c n = {r..<r + int n} \<times> {c}"

definition straight_line :: "coord set \<Rightarrow> nat \<Rightarrow> bool" where
  "straight_line S n \<longleftrightarrow> (\<exists>r c. S = hrun r c n \<or> S = vrun r c n)"

definition touching :: "coord set \<Rightarrow> coord set \<Rightarrow> bool" where
  "touching A B \<longleftrightarrow> (\<exists>a \<in> A. \<exists>b \<in> B. neighbour8 a b)"

definition ship_ok :: "coord set \<Rightarrow> nat \<Rightarrow> bool" where
  "ship_ok S n \<longleftrightarrow> 0 < n \<and> (\<forall>p \<in> S. in_bounds p) \<and> straight_line S n"

definition fleet_ok :: "coord set list \<Rightarrow> bool" where
  "fleet_ok ships \<longleftrightarrow>
     (\<forall>i < length ships. \<forall>j < length ships. i \<noteq> j \<longrightarrow>
        ships ! i \<inter> ships ! j = {} \<and> \<not> touching (ships ! i) (ships ! j))"

definition fleet_valid :: "nat list \<Rightarrow> coord set list \<Rightarrow> bool" where
  "fleet_valid sizes ships \<longleftrightarrow>
     length ships = length sizes \<and> (\<forall>i < length ships. ship_ok (ships ! i) (sizes ! i)) \<and>
     fleet_ok ships"

subsection \<open>\<open>ships_touch\<close>\<close>

lemma ships_touch_iff:
  "ships_touch S ships \<longleftrightarrow> (\<exists>ship \<in> set ships. \<exists>a \<in> S. \<exists>b \<in> ship. in_bounds b \<and> neighbour8 a b)"
  by (induction ships) (auto simp: set_adjacent8)

lemma ships_touch_touching:
  assumes "\<forall>ship \<in> set ships. \<forall>p \<in> ship. in_bounds p"
  shows "ships_touch S ships \<longleftrightarrow> (\<exists>ship \<in> set ships. touching S ship)"
  using assms by (auto simp: ships_touch_iff touching_def)

subsection \<open>\<open>validate_ship_shape\<close>\<close>

lemma sorted_snd_same_fst:
  "sorted cs \<Longrightarrow> \<forall>p \<in> set cs. fst p = r \<Longrightarrow> sorted (map snd (cs :: coord list))"
  by (induction cs) (auto simp: less_eq_prod_def)

lemma sorted_fst_same_snd:
  "sorted cs \<Longrightarrow> \<forall>p \<in> set cs. snd p = c \<Longrightarrow> sorted (map fst (cs :: coord list))"
  by (induction cs) (auto simp: less_eq_prod_def)

lemma distinct_snd_same_fst:
  "distinct cs \<Longrightarrow> \<forall>p \<in> set cs. fst p = r \<Longrightarrow> distinct (map snd (cs :: coord list))"
  by (auto simp: distinct_map inj_on_def prod_eq_iff)

lemma distinct_fst_same_snd:
  "distinct cs \<Longrightarrow> \<forall>p \<in> set cs. snd p = c \<Longrightarrow> distinct (map fst (cs :: coord list))"
  by (auto simp: distinct_map inj_on_def prod_eq_iff)

text \<open>A sorted list of distinct integers is \<open>[min..max]\<close> exactly when it is an interval.\<close>

lemma sorted_interval_iff:
  fixes xs :: "int list"
  assumes "sorted xs" "distinct xs" "xs \<noteq> []"
  shows "xs = [Min (set xs)..Max (set xs)] \<longleftrightarrow> (\<exists>c. set xs = {c..<c + int (length xs)})"
proof
  assume eq: "xs = [Min (set xs)..Max (set xs)]"
  let ?a = "Min (set xs)" and ?b = "Max (set xs)"
  have "?a \<le> ?b" using assms(3) by simp
  then have "length xs = nat (?b - ?a + 1)" by (subst eq) simp
  then have "set xs = {?a..<?a + int (length xs)}"
    using \<open>?a \<le> ?b\<close> by (subst eq) auto
  then show "\<exists>c. set xs = {c..<c + int (length xs)}" by blast
next
  assume "\<exists>c. set xs = {c..<c + int (length xs)}"
  then obtain c where c: "set xs = {c..<c + int (length xs)}" by blast
  have len: "0 < length xs" using assms(3) by simp
  have "Min (set xs) = c" using c len by (simp add: Min_eq_iff)
  moreover have "Max (set xs) = c + int (length xs) - 1" using c len by (simp add: Max_eq_iff)
  ultimately have "set [Min (set xs)..Max (set xs)] = set xs" using c by auto
  then show "xs = [Min (set xs)..Max (set xs)]"
    using assms(1,2) by (intro sorted_distinct_set_unique) simp_all
qed

lemma fst_hrun: "0 < n \<Longrightarrow> fst ` hrun r c n = {r}"
  by (auto simp: hrun_def image_iff intro: bexI [where x = "(r, c)"])

lemma snd_vrun: "0 < n \<Longrightarrow> snd ` vrun r c n = {c}"
  by (auto simp: vrun_def image_iff intro: bexI [where x = "(r, c)"])

lemma card_fst_vrun: "card (fst ` vrun r c n) = n"
proof -
  have "fst ` vrun r c n = {r..<r + int n}" by (simp add: vrun_def)
  then show ?thesis by simp
qed

lemma card_snd_hrun: "card (snd ` hrun r c n) = n"
proof -
  have "snd ` hrun r c n = {c..<c + int n}" by (simp add: hrun_def)
  then show ?thesis by simp
qed

lemma hrun_eq_Times: "0 < n \<Longrightarrow> {r} \<times> A = hrun r c n \<longleftrightarrow> A = {c..<c + int n}"
  by (auto simp: hrun_def times_eq_iff)

lemma vrun_eq_Times: "0 < n \<Longrightarrow> A \<times> {c} = vrun r c n \<longleftrightarrow> A = {r..<r + int n}"
  by (auto simp: vrun_def times_eq_iff)

lemma const_fst_Times: "\<forall>p \<in> S. fst p = r \<Longrightarrow> S = {r} \<times> snd ` (S :: coord set)"
proof (intro set_eqI iffI)
  fix p :: coord
  assume "\<forall>p \<in> S. fst p = r" and "p \<in> {r} \<times> snd ` S"
  then obtain q where "q \<in> S" "snd q = snd p" "fst p = r" by (auto simp: mem_Times_iff)
  with \<open>\<forall>p \<in> S. fst p = r\<close> have "q = p" by (simp add: prod_eq_iff)
  with \<open>q \<in> S\<close> show "p \<in> S" by simp
qed (auto simp: mem_Times_iff)

lemma const_snd_Times:
  fixes S :: "coord set"
  shows "\<forall>p \<in> S. snd p = c \<Longrightarrow> S = fst ` S \<times> {c}"
proof (intro set_eqI iffI)
  fix p :: coord
  assume "\<forall>p \<in> S. snd p = c" and "p \<in> fst ` S \<times> {c}"
  then obtain q where "q \<in> S" "fst q = fst p" "snd p = c" by (auto simp: mem_Times_iff)
  with \<open>\<forall>p \<in> S. snd p = c\<close> have "q = p" by (simp add: prod_eq_iff)
  with \<open>q \<in> S\<close> show "p \<in> S" by simp
qed (auto simp: mem_Times_iff)

lemma horizontal_branch:
  assumes "sorted cs" "distinct cs" "length cs = n" "0 < n" "\<forall>p \<in> set cs. fst p = r"
  shows "map snd cs = [Min (set (map snd cs))..Max (set (map snd cs))] \<longleftrightarrow>
           (\<exists>c. set cs = hrun r c n)"
proof -
  have S: "set cs = {r} \<times> set (map snd cs)"
    using const_fst_Times [OF assms(5)] by simp
  have "map snd cs = [Min (set (map snd cs))..Max (set (map snd cs))] \<longleftrightarrow>
          (\<exists>c. set (map snd cs) = {c..<c + int n})"
  proof -
    have "sorted (map snd cs)" using assms(1,5) by (rule sorted_snd_same_fst)
    moreover have "distinct (map snd cs)" using assms(2,5) by (rule distinct_snd_same_fst)
    moreover have "map snd cs \<noteq> []" using assms(3,4) by auto
    ultimately have "map snd cs = [Min (set (map snd cs))..Max (set (map snd cs))] \<longleftrightarrow>
      (\<exists>c. set (map snd cs) = {c..<c + int (length (map snd cs))})"
      by (rule sorted_interval_iff)
    then show ?thesis using assms(3) by simp
  qed
  also have "\<dots> \<longleftrightarrow> (\<exists>c. set cs = hrun r c n)"
    unfolding S using assms(4) by (simp add: hrun_eq_Times)
  finally show ?thesis .
qed

lemma vertical_branch:
  assumes "sorted cs" "distinct cs" "length cs = n" "0 < n" "\<forall>p \<in> set cs. snd p = c"
  shows "map fst cs = [Min (set (map fst cs))..Max (set (map fst cs))] \<longleftrightarrow>
           (\<exists>r. set cs = vrun r c n)"
proof -
  have S: "set cs = set (map fst cs) \<times> {c}"
    using const_snd_Times [OF assms(5)] by simp
  have "map fst cs = [Min (set (map fst cs))..Max (set (map fst cs))] \<longleftrightarrow>
          (\<exists>r. set (map fst cs) = {r..<r + int n})"
  proof -
    have "sorted (map fst cs)" using assms(1,5) by (rule sorted_fst_same_snd)
    moreover have "distinct (map fst cs)" using assms(2,5) by (rule distinct_fst_same_snd)
    moreover have "map fst cs \<noteq> []" using assms(3,4) by auto
    ultimately have "map fst cs = [Min (set (map fst cs))..Max (set (map fst cs))] \<longleftrightarrow>
      (\<exists>c. set (map fst cs) = {c..<c + int (length (map fst cs))})"
      by (rule sorted_interval_iff)
    then show ?thesis using assms(3) by simp
  qed
  also have "\<dots> \<longleftrightarrow> (\<exists>r. set cs = vrun r c n)"
    unfolding S using assms(4) by (simp add: vrun_eq_Times)
  finally show ?thesis .
qed

lemma card_one_const: "card (f ` S) = 1 \<longleftrightarrow> (\<exists>a. S \<noteq> {} \<and> (\<forall>p \<in> S. f p = a))"
  by (auto simp: card_1_singleton_iff)

lemma straight_line_one: "straight_line {p} 1"
proof -
  have "{p} = hrun (fst p) (snd p) 1" by (auto simp: hrun_def)
  then show ?thesis unfolding straight_line_def by blast
qed

lemma straight_hrun_iff:
  assumes "\<forall>p \<in> S. fst p = r" "S \<noteq> {}" "2 \<le> n"
  shows "straight_line S n \<longleftrightarrow> (\<exists>c. S = hrun r c n)"
proof
  assume "straight_line S n"
  then obtain r' c where "S = hrun r' c n \<or> S = vrun r' c n" by (auto simp: straight_line_def)
  then show "\<exists>c. S = hrun r c n"
  proof
    assume S: "S = hrun r' c n"
    then have "fst ` S = {r'}" using assms(3) by (simp add: fst_hrun)
    moreover have "fst ` S = {r}" using assms(1,2) by auto
    ultimately show ?thesis using S by auto
  next
    assume "S = vrun r' c n"
    then have "card (fst ` S) = n" by (simp add: card_fst_vrun)
    moreover have "fst ` S = {r}" using assms(1,2) by auto
    ultimately show ?thesis using assms(3) by simp
  qed
qed (auto simp: straight_line_def)

lemma straight_vrun_iff:
  assumes "\<forall>p \<in> S. snd p = c" "S \<noteq> {}" "2 \<le> n"
  shows "straight_line S n \<longleftrightarrow> (\<exists>r. S = vrun r c n)"
proof
  assume "straight_line S n"
  then obtain r c' where "S = hrun r c' n \<or> S = vrun r c' n" by (auto simp: straight_line_def)
  then show "\<exists>r. S = vrun r c n"
  proof
    assume "S = hrun r c' n"
    then have "card (snd ` S) = n" by (simp add: card_snd_hrun)
    moreover have "snd ` S = {c}" using assms(1,2) by auto
    ultimately show ?thesis using assms(3) by simp
  next
    assume S: "S = vrun r c' n"
    then have "snd ` S = {c'}" using assms(3) by (simp add: snd_vrun)
    moreover have "snd ` S = {c}" using assms(1,2) by auto
    ultimately show ?thesis using S by auto
  qed
qed (auto simp: straight_line_def)

lemma not_straight:
  assumes "card (fst ` S) \<noteq> 1" "card (snd ` S) \<noteq> 1" "0 < n"
  shows "\<not> straight_line S n"
  using assms by (auto simp: straight_line_def fst_hrun snd_vrun)

text \<open>
  The shape check accepts exactly the lists of the declared length whose cells are
  distinct and form one straight run.
\<close>

lemma validate_ship_shape_straight:
  "validate_ship_shape coords n \<longleftrightarrow>
     length coords = n \<and> 0 < n \<and> distinct coords \<and> straight_line (set coords) n"
proof (cases "length coords = n")
  case False
  then show ?thesis by (simp add: validate_ship_shape_def)
next
  case len: True
  consider "n = 0" | "n = 1" | "2 \<le> n" by linarith
  then show ?thesis
  proof cases
    case 1
    with len show ?thesis by (simp add: validate_ship_shape_def)
  next
    case 2
    with len obtain x where "coords = [x]" by (auto simp: length_Suc_conv)
    moreover have "straight_line {x} (Suc 0)" using straight_line_one [of x] by simp
    ultimately show ?thesis using 2 by (simp add: validate_ship_shape_def)
  next
    case 3
    define cs where "cs = sort (remdups coords)"
    have sorted: "sorted cs" and dist: "distinct cs" and set_cs: "set cs = set coords"
      by (simp_all add: cs_def)
    have len_cs: "length cs = length (remdups coords)" by (simp add: cs_def)
    show ?thesis
    proof (cases "distinct coords")
      case False
      then have "length cs \<noteq> n"
        using len len_cs by (metis length_remdups_eq remdups_id_iff_distinct)
      with False 3 len show ?thesis by (simp add: validate_ship_shape_def Let_def cs_def)
    next
      case True
      then have ln: "length cs = n" using len len_cs by (simp add: distinct_remdups_id)
      have ne: "set cs \<noteq> {}" using ln 3 by auto
      have lhs: "validate_ship_shape coords n \<longleftrightarrow>
          (if card (fst ` set cs) = 1 then map snd cs = [Min (set (map snd cs))..Max (set (map snd cs))]
           else if card (snd ` set cs) = 1 then map fst cs = [Min (set (map fst cs))..Max (set (map fst cs))]
           else False)"
        using len ln 3 by (simp add: validate_ship_shape_def Let_def cs_def[symmetric]
            length_remdups_card_conv)
      show ?thesis
      proof (cases "card (fst ` set cs) = 1")
        case True
        then obtain r where r: "\<forall>p \<in> set cs. fst p = r"
          using card_one_const [of fst "set cs"] by blast
        show ?thesis
          using lhs True horizontal_branch [OF sorted dist ln _ r] straight_hrun_iff [OF r ne 3]
            \<open>distinct coords\<close> len 3 set_cs by simp
      next
        case nf: False
        show ?thesis
        proof (cases "card (snd ` set cs) = 1")
          case True
          then obtain c where c: "\<forall>p \<in> set cs. snd p = c"
            using card_one_const [of snd "set cs"] by blast
          show ?thesis
            using lhs nf True vertical_branch [OF sorted dist ln _ c] straight_vrun_iff [OF c ne 3]
              \<open>distinct coords\<close> len 3 set_cs by simp
        next
          case False
          then show ?thesis using lhs nf not_straight [OF nf False] 3 set_cs by simp
        qed
      qed
    qed
  qed
qed

text \<open>
  C14: the shape check accepts exactly the lists of the declared length whose cells
  are distinct and form one horizontal run \<open>{r} \<times> {c..<c+n}\<close> or one vertical run
  \<open>{r..<r+n} \<times> {c}\<close>; it rejects a gap, a bend, a wrong size and a list whose
  duplicates collapse to fewer cells.
\<close>

theorem validate_ship_shape_iff:
  "validate_ship_shape coords n \<longleftrightarrow>
     length coords = n \<and> 0 < n \<and> distinct coords \<and>
     (\<exists>r c. set coords = {r} \<times> {c..<c + int n} \<or> set coords = {r..<r + int n} \<times> {c})"
  by (simp add: validate_ship_shape_straight straight_line_def hrun_def vrun_def)

subsection \<open>Fleet validity\<close>

lemma touching_sym: "touching A B \<longleftrightarrow> touching B A"
  unfolding touching_def by (meson neighbour8_sym)

lemma fleet_ok_snoc:
  "fleet_ok (xs @ [s]) \<longleftrightarrow>
     fleet_ok xs \<and> (\<forall>x \<in> set xs. x \<inter> s = {} \<and> \<not> touching x s)"
proof
  assume ok: "fleet_ok (xs @ [s])"
  have "fleet_ok xs"
    unfolding fleet_ok_def
  proof (intro allI impI)
    fix i j assume "i < length xs" "j < length xs" "i \<noteq> j"
    with ok show "xs ! i \<inter> xs ! j = {} \<and> \<not> touching (xs ! i) (xs ! j)"
      unfolding fleet_ok_def by (metis length_append_singleton less_SucI nth_append)
  qed
  moreover have "\<forall>x \<in> set xs. x \<inter> s = {} \<and> \<not> touching x s"
  proof
    fix x assume "x \<in> set xs"
    then obtain i where i: "i < length xs" "xs ! i = x" by (auto simp: in_set_conv_nth)
    then have "i < length (xs @ [s])" "length xs < length (xs @ [s])" "i \<noteq> length xs"
      by auto
    with ok have "(xs @ [s]) ! i \<inter> (xs @ [s]) ! length xs = {} \<and>
        \<not> touching ((xs @ [s]) ! i) ((xs @ [s]) ! length xs)"
      unfolding fleet_ok_def by blast
    with i show "x \<inter> s = {} \<and> \<not> touching x s" by (simp add: nth_append)
  qed
  ultimately show "fleet_ok xs \<and> (\<forall>x \<in> set xs. x \<inter> s = {} \<and> \<not> touching x s)" ..
next
  assume "fleet_ok xs \<and> (\<forall>x \<in> set xs. x \<inter> s = {} \<and> \<not> touching x s)"
  then have ok: "fleet_ok xs" and new: "\<forall>x \<in> set xs. x \<inter> s = {} \<and> \<not> touching x s" by auto
  show "fleet_ok (xs @ [s])"
    unfolding fleet_ok_def
  proof (intro allI impI)
    fix i j assume i: "i < length (xs @ [s])" and j: "j < length (xs @ [s])" and ij: "i \<noteq> j"
    show "(xs @ [s]) ! i \<inter> (xs @ [s]) ! j = {} \<and> \<not> touching ((xs @ [s]) ! i) ((xs @ [s]) ! j)"
    proof (cases "i < length xs")
      case True
      show ?thesis
      proof (cases "j < length xs")
        case True
        with \<open>i < length xs\<close> ij ok show ?thesis by (simp add: fleet_ok_def nth_append)
      next
        case False
        with j have "j = length xs" by simp
        with True new show ?thesis by (simp add: nth_append)
      qed
    next
      case False
      with i have "i = length xs" by simp
      with ij j have "j < length xs" by simp
      with \<open>i = length xs\<close> new show ?thesis
        by (auto simp: nth_append touching_sym Int_commute)
    qed
  qed
qed

lemma fleet_valid_snoc:
  "fleet_valid (sizes @ [n]) (xs @ [s]) \<longleftrightarrow>
     fleet_valid sizes xs \<and> ship_ok s n \<and> (\<forall>x \<in> set xs. x \<inter> s = {} \<and> \<not> touching x s)"
  by (auto simp: fleet_valid_def fleet_ok_snoc nth_append less_Suc_eq)

lemma fleet_valid_in_bounds:
  "fleet_valid sizes ships \<Longrightarrow> S \<in> set ships \<Longrightarrow> p \<in> S \<Longrightarrow> in_bounds p"
  by (auto simp: fleet_valid_def ship_ok_def in_set_conv_nth)

text \<open>
  The acceptance test shared by \<^verbatim>\<open>get_player_ships\<close> and
  \<^verbatim>\<open>generate_bot_ships\<close>: a straight in-bounds ship that misses
  \<^verbatim>\<open>placed_cells\<close> and does not touch the placed ships extends a valid fleet.
\<close>

lemma accept_ship_valid:
  assumes valid: "fleet_valid sizes (map set ships)"
    and placed: "placed_cells = \<Union> (set ` set ships)"
    and ok: "ship_ok (set coords) n"
    and disj: "set coords \<inter> placed_cells = {}"
    and touch: "\<not> ships_touch (set coords) (map set ships)"
  shows "fleet_valid (sizes @ [n]) (map set (ships @ [coords]))"
proof -
  have "\<forall>S \<in> set (map set ships). \<forall>p \<in> S. in_bounds p"
    using valid by (blast intro: fleet_valid_in_bounds)
  then have "\<not> (\<exists>x \<in> set (map set ships). touching (set coords) x)"
    using touch by (simp add: ships_touch_touching)
  then have "\<forall>x \<in> set (map set ships). x \<inter> set coords = {} \<and> \<not> touching x (set coords)"
    using disj placed by (auto simp: touching_sym)
  with valid ok show ?thesis
    by (simp add: fleet_valid_snoc)
qed

text \<open>
  The effect of an accepted placement on the fleet and on \<^verbatim>\<open>placed_cells\<close>.
\<close>

lemma place_ship_accepts:
  assumes valid: "fleet_valid sizes (map set ships)"
    and placed: "placed_cells = \<Union> (set ` set ships)"
    and bounds: "\<forall>p \<in> set coords. in_bounds p"
    and ok: "place_ship ships placed_cells ship_size coords = Inr (ships', placed')"
  shows "fleet_valid (sizes @ [ship_size]) (map set ships') \<and> placed' = \<Union> (set ` set ships')"
proof -
  from ok have shape: "validate_ship_shape coords ship_size"
    and disj: "set coords \<inter> placed_cells = {}"
    and touch: "\<not> ships_touch (set coords) (map set ships)"
    and res: "ships' = ships @ [coords]" "placed' = placed_cells \<union> set coords"
    by (auto simp: place_ship_def Let_def split: if_splits)
  have "ship_ok (set coords) ship_size"
    using shape bounds by (simp add: validate_ship_shape_straight ship_ok_def)
  from accept_ship_valid [OF valid placed this disj touch] res placed show ?thesis
    by (simp add: Un_commute)
qed

text \<open>
  C15: an accepted placement keeps the fleet valid: the new ship is a straight in-bounds
  run of the requested size, it shares no cell with the ships placed before and
  touches none of them, and \<^verbatim>\<open>placed_cells\<close> stays the union of their cells.
\<close>

theorem place_ship_valid:
  assumes valid: "fleet_valid sizes (map set ships)"
    and placed: "placed_cells = \<Union> (set ` set ships)"
    and bounds: "\<forall>p \<in> set coords. in_bounds p"
    and ok: "place_ship ships placed_cells ship_size coords = Inr (ships', placed')"
  shows "fleet_valid (sizes @ [ship_size]) (map set ships') \<and> placed' = \<Union> (set ` set ships')"
  using place_ship_accepts [OF valid placed bounds ok] .

text \<open>C15, witness: one ship placed beside a one-cell ship.\<close>

theorem place_ship_valid_witness:
  "fleet_valid [1, 2] (map set [[(0, 0)], [(5, 5), (5, 6)]]) \<and>
   {(0, 0), (5, 5), (5, 6)} = \<Union> (set ` set [[(0 :: int, 0 :: int)], [(5, 5), (5, 6)]])"
proof -
  have "{(0 :: int, 0 :: int)} = hrun 0 0 1" by (auto simp: hrun_def)
  then have "straight_line {(0 :: int, 0 :: int)} 1" unfolding straight_line_def by blast
  then have v: "fleet_valid [1] (map set [[(0 :: int, 0 :: int)]])"
    by (simp add: fleet_valid_def ship_ok_def fleet_ok_def in_bounds_def BOARD_SIZE_def)
  have placed: "{(0 :: int, 0 :: int)} = \<Union> (set ` set [[(0, 0)]])" by simp
  have b: "\<forall>p \<in> set [(5 :: int, 5 :: int), (5, 6)]. in_bounds p"
    by (simp add: in_bounds_def BOARD_SIZE_def)
  have p: "place_ship [[(0, 0)]] {(0, 0)} 2 [(5, 5), (5, 6)] =
             Inr ([[(0, 0)], [(5, 5), (5, 6)]], {(0, 0), (5, 5), (5, 6)})"
    by code_simp
  from place_ship_valid [OF v placed b p] show ?thesis by simp
qed

subsection \<open>Concrete checks\<close>

lemma validate_ship_shape_examples:
  "validate_ship_shape [(2, 3), (2, 4), (2, 5)] 3"
  "validate_ship_shape [(3, 1), (1, 1), (2, 1)] 3"
  "\<not> validate_ship_shape [(0, 0), (0, 0), (0, 1)] 3"
  "\<not> validate_ship_shape [(0, 0), (0, 2), (0, 3)] 3"
  "\<not> validate_ship_shape [(0, 0), (0, 1), (1, 1)] 3"
  "\<not> validate_ship_shape [] 0"
  by code_simp+

lemma place_ship_examples:
  "place_ship [[(0, 0)]] {(0, 0)} 2 [(1, 1), (1, 2)] = Inl ShipsTouching"
  "place_ship [[(0, 0)]] {(0, 0)} 2 [(0, 0), (0, 1)] = Inl ShipOverlap"
  "place_ship [[(0, 0)]] {(0, 0)} 2 [] = Inl InvalidFormat"
  by code_simp+

text \<open>
  C24: \<^const>\<open>ships_touch\<close> looks only at the neighbours of each cell, never at the cell
  itself, so a one-cell candidate lying exactly on an existing one-cell ship does not
  "touch" it, wherever it lies; only the separate overlap check of
  \<^const>\<open>place_ship\<close> rejects it.
\<close>

theorem ships_touch_same_cell: "\<not> ships_touch {c} [{c}]"
  by (simp add: ships_touch_iff neighbour8_def)

end
