(* ===== verification/GameState.thy ===== *)
theory GameState
  imports Placement
begin

text \<open>
  The game state of \<^verbatim>\<open>src/src/gameplay.py\<close> (class \<^verbatim>\<open>GameState\<close>):
  both fleets as lists of cell sets, the hit and miss sets of each attacker, the
  destroyed flags parallel to each fleet, the turn counter and the bot's targeting
  memory.  The operations are the constructor, \<^verbatim>\<open>is_valid_move\<close>,
  \<^verbatim>\<open>process_move\<close> with \<^verbatim>\<open>_mark_surrounding_as_miss\<close>, and
  \<^verbatim>\<open>is_game_over\<close>.  Both branches of \<^verbatim>\<open>process_move\<close> run the same
  algorithm on one side of the board; \<open>shoot\<close> states it once over that side's
  fleet, flags and the attacker's ledger, and the lemmas \<open>process_move_player\<close>
  and \<open>process_move_bot\<close> show that each branch is \<open>shoot\<close>.  The side invariant
  \<open>side_inv\<close> (hits lie on ships, misses never do, a flag is set exactly when its ship
  is fully hit, the ring of a sunk ship is all misses) holds initially and is kept by
  every shot on a well-formed fleet.
\<close>

record game_state =
  player_ships :: "coord set list"
  bot_ships :: "coord set list"
  player_hits :: "coord set"
  player_misses :: "coord set"
  bot_hits :: "coord set"
  bot_misses :: "coord set"
  player_destroyed :: "bool list"
  bot_destroyed :: "bool list"
  turn :: int
  bot_target_mode :: bool
  bot_current_target :: "coord list"
  bot_direction :: "string option"
  bot_tried_cells :: "coord set"

definition init_game_state :: "coord list list \<Rightarrow> coord list list \<Rightarrow> game_state" where
  "init_game_state player_ships0 bot_ships0 =
     \<lparr>player_ships = map set player_ships0, bot_ships = map set bot_ships0,
      player_hits = {}, player_misses = {}, bot_hits = {}, bot_misses = {},
      player_destroyed = replicate (length player_ships0) False,
      bot_destroyed = replicate (length bot_ships0) False,
      turn = 0,
      bot_target_mode = False, bot_current_target = [], bot_direction = None,
      bot_tried_cells = {}\<rparr>"

definition is_valid_move :: "coord \<Rightarrow> bool \<Rightarrow> game_state \<Rightarrow> bool" where
  "is_valid_move coord is_player st =
     (if is_player then coord \<notin> player_hits st \<and> coord \<notin> player_misses st
      else coord \<notin> bot_hits st \<and> coord \<notin> bot_misses st)"

text \<open>The index the \<^verbatim>\<open>for i, ship in enumerate(...)\<close> loop stops at: the first ship holding the cell.\<close>

definition first_ship :: "coord \<Rightarrow> coord set list \<Rightarrow> nat option" where
  "first_ship coord ships = find (\<lambda>i. coord \<in> ships ! i) [0..<length ships]"

definition mark_surrounding_as_miss :: "coord set \<Rightarrow> bool \<Rightarrow> game_state \<Rightarrow> game_state" where
  "mark_surrounding_as_miss ship is_player st =
     (let surrounding = get_surrounding_cells ship in
      if is_player then st\<lparr>player_misses := player_misses st \<union> (surrounding - player_hits st)\<rparr>
      else st\<lparr>bot_misses := bot_misses st \<union> (surrounding - bot_hits st)\<rparr>)"

definition process_move :: "coord \<Rightarrow> bool \<Rightarrow> game_state \<Rightarrow> (bool \<times> bool) \<times> game_state" where
  "process_move coord is_player st =
     (if is_player then
        (case first_ship coord (bot_ships st) of
           Some i \<Rightarrow>
             let st1 = st\<lparr>player_hits := insert coord (player_hits st)\<rparr>; ship = bot_ships st ! i in
             if ship \<subseteq> player_hits st1 \<and> \<not> bot_destroyed st1 ! i then
               ((True, True),
                mark_surrounding_as_miss ship True (st1\<lparr>bot_destroyed := (bot_destroyed st1)[i := True]\<rparr>))
             else ((True, False), st1)
         | None \<Rightarrow> ((False, False), st\<lparr>player_misses := insert coord (player_misses st)\<rparr>))
      else
        (case first_ship coord (player_ships st) of
           Some i \<Rightarrow>
             let st1 = st\<lparr>bot_hits := insert coord (bot_hits st)\<rparr>; ship = player_ships st ! i in
             if ship \<subseteq> bot_hits st1 \<and> \<not> player_destroyed st1 ! i then
               ((True, True),
                mark_surrounding_as_miss ship False (st1\<lparr>player_destroyed := (player_destroyed st1)[i := True]\<rparr>))
             else ((True, False), st1)
         | None \<Rightarrow> ((False, False), st\<lparr>bot_misses := insert coord (bot_misses st)\<rparr>)))"

datatype winner = Player | Bot

definition is_game_over :: "game_state \<Rightarrow> bool \<times> winner option" where
  "is_game_over st =
     (if list_all id (bot_destroyed st) then (True, Some Player)
      else if list_all id (player_destroyed st) then (True, Some Bot)
      else (False, None))"

subsection \<open>One side of the board\<close>

text \<open>
  A shot at one side: the defending fleet, its destroyed flags, and the attacker's hits
  and misses, returned updated with the \<open>(is_hit, ship_destroyed)\<close> pair.
\<close>

definition shoot ::
  "coord \<Rightarrow> coord set list \<Rightarrow> bool list \<Rightarrow> coord set \<Rightarrow> coord set \<Rightarrow>
     (bool \<times> bool) \<times> bool list \<times> coord set \<times> coord set" where
  "shoot c ships destroyed hits misses =
     (case first_ship c ships of
        Some i \<Rightarrow>
          let hits' = insert c hits in
          if ships ! i \<subseteq> hits' \<and> \<not> destroyed ! i
          then ((True, True), destroyed[i := True], hits',
                misses \<union> (get_surrounding_cells (ships ! i) - hits'))
          else ((True, False), destroyed, hits', misses)
      | None \<Rightarrow> ((False, False), destroyed, hits, insert c misses))"

subsection \<open>Fleets and the side invariant\<close>

definition fleet_wf :: "coord set list \<Rightarrow> bool" where
  "fleet_wf ships \<longleftrightarrow> fleet_ok ships \<and> (\<forall>i < length ships. ships ! i \<noteq> {})"

definition side_inv :: "coord set list \<Rightarrow> bool list \<Rightarrow> coord set \<Rightarrow> coord set \<Rightarrow> bool" where
  "side_inv ships destroyed hits misses \<longleftrightarrow>
     length destroyed = length ships \<and>
     hits \<subseteq> \<Union> (set ships) \<and>
     misses \<inter> \<Union> (set ships) = {} \<and>
     (\<forall>i < length ships. destroyed ! i \<longleftrightarrow> ships ! i \<subseteq> hits) \<and>
     (\<forall>i < length ships. destroyed ! i \<longrightarrow> get_surrounding_cells (ships ! i) \<subseteq> misses)"

subsection \<open>Side views of the state\<close>

text \<open>
  For an attacker (\<open>is_player\<close> true: the human), the fleet it shoots at with its
  destroyed flags, and its own hits and misses.
\<close>

definition defender_ships :: "game_state \<Rightarrow> bool \<Rightarrow> coord set list" where
  "defender_ships st is_player = (if is_player then bot_ships st else player_ships st)"

definition defender_destroyed :: "game_state \<Rightarrow> bool \<Rightarrow> bool list" where
  "defender_destroyed st is_player = (if is_player then bot_destroyed st else player_destroyed st)"

definition attacker_hits :: "game_state \<Rightarrow> bool \<Rightarrow> coord set" where
  "attacker_hits st is_player = (if is_player then player_hits st else bot_hits st)"

definition attacker_misses :: "game_state \<Rightarrow> bool \<Rightarrow> coord set" where
  "attacker_misses st is_player = (if is_player then player_misses st else bot_misses st)"

definition game_inv :: "game_state \<Rightarrow> bool" where
  "game_inv st \<longleftrightarrow>
     fleet_wf (player_ships st) \<and> fleet_wf (bot_ships st) \<and>
     side_inv (bot_ships st) (bot_destroyed st) (player_hits st) (player_misses st) \<and>
     side_inv (player_ships st) (player_destroyed st) (bot_hits st) (bot_misses st)"

fun run_moves :: "(coord \<times> bool) list \<Rightarrow> game_state \<Rightarrow> game_state" where
  "run_moves [] st = st"
| "run_moves ((c, p) # ms) st = run_moves ms (snd (process_move c p st))"

text \<open>
  Test fixtures: a game with a one-cell player ship at (0,0) and a one-cell bot ship at
  (9,9), and the state after the bot has sunk the player's ship.
\<close>

definition example_game :: game_state where
  "example_game = init_game_state [[(0, 0)]] [[(9, 9)]]"

definition example_sunk :: game_state where
  "example_sunk = example_game\<lparr>player_destroyed := [True], bot_hits := {(0, 0)},
     bot_misses := {(0, 1), (1, 0), (1, 1)}\<rparr>"

lemma process_move_player:
  "process_move c True st =
     (let (res, d, h, m) = shoot c (bot_ships st) (bot_destroyed st) (player_hits st) (player_misses st)
      in (res, st\<lparr>bot_destroyed := d, player_hits := h, player_misses := m\<rparr>))"
  by (simp add: process_move_def shoot_def mark_surrounding_as_miss_def Let_def
      split: option.split)

lemma process_move_bot:
  "process_move c False st =
     (let (res, d, h, m) = shoot c (player_ships st) (player_destroyed st) (bot_hits st) (bot_misses st)
      in (res, st\<lparr>player_destroyed := d, bot_hits := h, bot_misses := m\<rparr>))"
  by (simp add: process_move_def shoot_def mark_surrounding_as_miss_def Let_def
      split: option.split)

lemma fleet_valid_wf: "fleet_valid sizes ships \<Longrightarrow> fleet_wf ships"
  by (auto simp: fleet_valid_def fleet_wf_def ship_ok_def straight_line_def hrun_def vrun_def)

lemma first_ship_Some:
  "first_ship c S = Some i \<Longrightarrow> i < length S \<and> c \<in> S ! i"
  unfolding first_ship_def by (drule find_upt_Some_least) simp

lemma ex_nth_iff_in_set: "(\<exists>i < length S. c \<in> S ! i) \<longleftrightarrow> (\<exists>X \<in> set S. c \<in> X)"
  by (metis in_set_conv_nth)

lemma first_ship_None:
  "first_ship c S = None \<longleftrightarrow> c \<notin> \<Union> (set S)"
  using ex_nth_iff_in_set [of S c] by (simp add: first_ship_def find_None_iff)

lemma fleet_ok_unique:
  "fleet_ok S \<Longrightarrow> i < length S \<Longrightarrow> j < length S \<Longrightarrow> c \<in> S ! i \<Longrightarrow> c \<in> S ! j \<Longrightarrow> i = j"
  unfolding fleet_ok_def by blast

lemma first_ship_eq:
  assumes "fleet_ok S" "i < length S" "c \<in> S ! i"
  shows "first_ship c S = Some i"
proof -
  from assms(2,3) have "first_ship c S \<noteq> None"
    by (auto simp: first_ship_None dest: nth_mem)
  then obtain j where j: "first_ship c S = Some j" by blast
  then have "j < length S" "c \<in> S ! j" by (auto dest: first_ship_Some)
  with assms have "j = i" by (blast intro: fleet_ok_unique)
  with j show ?thesis by simp
qed

lemma surrounding_fleet_disjoint:
  assumes "fleet_ok S" "i < length S"
  shows "get_surrounding_cells (S ! i) \<inter> \<Union> (set S) = {}"
proof (rule ccontr)
  assume "get_surrounding_cells (S ! i) \<inter> \<Union> (set S) \<noteq> {}"
  then obtain p j where p: "p \<in> get_surrounding_cells (S ! i)" "j < length S" "p \<in> S ! j"
    by (auto simp: in_set_conv_nth)
  then obtain q where "q \<in> S ! i" "neighbour8 q p" "p \<notin> S ! i"
    by (auto simp: get_surrounding_cells_eq)
  with p have "i \<noteq> j" "touching (S ! i) (S ! j)" by (auto simp: touching_def)
  with assms p(2) show False unfolding fleet_ok_def by blast
qed

lemma subset_insert_other:
  "fleet_ok S \<Longrightarrow> i < length S \<Longrightarrow> j < length S \<Longrightarrow> i \<noteq> j \<Longrightarrow> c \<in> S ! i \<Longrightarrow>
     S ! j \<subseteq> insert c H \<longleftrightarrow> S ! j \<subseteq> H"
  using fleet_ok_unique by blast

lemma side_inv_init:
  "fleet_wf S \<Longrightarrow> side_inv S (replicate (length S) False) {} {}"
  by (simp add: side_inv_def fleet_wf_def)

lemma shoot_miss:
  "first_ship c S = None \<Longrightarrow> shoot c S D H M = ((False, False), D, H, insert c M)"
  by (simp add: shoot_def)

lemma shoot_inv_miss:
  assumes "side_inv S D H M" "first_ship c S = None"
  shows "side_inv S D H (insert c M)"
  using assms by (auto simp: side_inv_def first_ship_None)

lemma shoot_inv_hit:
  assumes wf: "fleet_wf S" and inv: "side_inv S D H M"
    and i: "first_ship c S = Some i"
    and res: "shoot c S D H M = (r, D', H', M')"
  shows "side_inv S D' H' M'"
proof -
  from i have il: "i < length S" and ci: "c \<in> S ! i" by (auto dest: first_ship_Some)
  have ok: "fleet_ok S" using wf by (simp add: fleet_wf_def)
  have H': "H' = insert c H" using res i by (auto simp: shoot_def Let_def split: if_splits)
  have hits: "H' \<subseteq> \<Union> (set S)" using inv il ci H' by (auto simp: side_inv_def)
  have other: "\<And>j. j < length S \<Longrightarrow> j \<noteq> i \<Longrightarrow> S ! j \<subseteq> H' \<longleftrightarrow> D ! j"
    using inv ok il ci H' subset_insert_other [of S i] by (simp add: side_inv_def)
  have sur: "get_surrounding_cells (S ! i) \<inter> \<Union> (set S) = {}"
    using ok il by (rule surrounding_fleet_disjoint)
  have lenD: "length D = length S" using inv by (simp add: side_inv_def)
  show ?thesis
  proof (cases "S ! i \<subseteq> H' \<and> \<not> D ! i")
    case True
    then have D': "D' = D[i := True]" and M': "M' = M \<union> (get_surrounding_cells (S ! i) - H')"
      using res i H' by (simp_all add: shoot_def Let_def)
    have flags: "\<forall>j < length S. D' ! j \<longleftrightarrow> S ! j \<subseteq> H'"
    proof (intro allI impI)
      fix j assume j: "j < length S"
      show "D' ! j \<longleftrightarrow> S ! j \<subseteq> H'"
        using True D' lenD il other [OF j] by (cases "j = i") simp_all
    qed
    have seal: "\<forall>j < length S. D' ! j \<longrightarrow> get_surrounding_cells (S ! j) \<subseteq> M'"
    proof (intro allI impI)
      fix j assume j: "j < length S" and dj: "D' ! j"
      show "get_surrounding_cells (S ! j) \<subseteq> M'"
      proof (cases "j = i")
        case True
        then show ?thesis using M' sur hits by blast
      next
        case False
        then have "D ! j" using dj D' by simp
        then show ?thesis using inv j M' by (auto simp: side_inv_def)
      qed
    qed
    have "M' \<inter> \<Union> (set S) = {}" using inv M' sur by (auto simp: side_inv_def)
    then show ?thesis using flags seal hits lenD D' by (simp add: side_inv_def)
  next
    case False
    then have D': "D' = D" and M': "M' = M"
      using res i H' by (auto simp: shoot_def Let_def split: if_splits)
    have flags: "\<forall>j < length S. D' ! j \<longleftrightarrow> S ! j \<subseteq> H'"
    proof (intro allI impI)
      fix j assume j: "j < length S"
      have "D ! i \<longleftrightarrow> S ! i \<subseteq> H'" using False inv il H' by (auto simp: side_inv_def)
      then show "D' ! j \<longleftrightarrow> S ! j \<subseteq> H'"
        using D' other [OF j] by (cases "j = i") simp_all
    qed
    then show ?thesis using inv hits D' M' by (simp add: side_inv_def)
  qed
qed

lemma shoot_side_inv:
  assumes "fleet_wf S" "side_inv S D H M" "shoot c S D H M = (r, D', H', M')"
  shows "side_inv S D' H' M'"
proof (cases "first_ship c S")
  case None
  with assms show ?thesis by (auto simp: shoot_miss intro: shoot_inv_miss)
next
  case (Some i)
  then show ?thesis by (rule shoot_inv_hit [OF assms(1,2) _ assms(3)])
qed

lemmas side_views [ledger_simps] =
  defender_ships_def defender_destroyed_def attacker_hits_def attacker_misses_def

lemma game_inv_side:
  "game_inv st \<Longrightarrow> fleet_wf (defender_ships st p) \<and>
     side_inv (defender_ships st p) (defender_destroyed st p) (attacker_hits st p) (attacker_misses st p)"
  by (cases p) (simp_all add: game_inv_def side_views)

lemma is_valid_move_side:
  "is_valid_move c p st \<longleftrightarrow> c \<notin> attacker_hits st p \<and> c \<notin> attacker_misses st p"
  by (simp add: is_valid_move_def side_views)

text \<open>
  A move by one attacker is \<open>shoot\<close> on its side; the fleets, the other side and the
  rest of the state are unchanged.
\<close>

lemma process_move_player_eq:
  "shoot c (bot_ships st) (bot_destroyed st) (player_hits st) (player_misses st) = (res, d, h, m) \<Longrightarrow>
     process_move c True st = (res, st\<lparr>bot_destroyed := d, player_hits := h, player_misses := m\<rparr>)"
  by (simp add: process_move_player)

lemma process_move_bot_eq:
  "shoot c (player_ships st) (player_destroyed st) (bot_hits st) (bot_misses st) = (res, d, h, m) \<Longrightarrow>
     process_move c False st = (res, st\<lparr>player_destroyed := d, bot_hits := h, bot_misses := m\<rparr>)"
  by (simp add: process_move_bot)

lemma process_move_side:
  assumes "process_move c p st = (r, st')"
  shows "shoot c (defender_ships st p) (defender_destroyed st p) (attacker_hits st p) (attacker_misses st p)
           = (r, defender_destroyed st' p, attacker_hits st' p, attacker_misses st' p)"
    and "defender_destroyed st' (\<not> p) = defender_destroyed st (\<not> p)"
    and "attacker_hits st' (\<not> p) = attacker_hits st (\<not> p)"
    and "attacker_misses st' (\<not> p) = attacker_misses st (\<not> p)"
    and "player_ships st' = player_ships st" and "bot_ships st' = bot_ships st"
    and "turn st' = turn st" and "bot_target_mode st' = bot_target_mode st"
    and "bot_current_target st' = bot_current_target st"
proof -
  obtain res d h m where sh: "shoot c (defender_ships st p) (defender_destroyed st p)
      (attacker_hits st p) (attacker_misses st p) = (res, d, h, m)"
    by (metis prod_cases4)
  have "r = res \<and> st' = (if p then st\<lparr>bot_destroyed := d, player_hits := h, player_misses := m\<rparr>
                          else st\<lparr>player_destroyed := d, bot_hits := h, bot_misses := m\<rparr>)"
  proof (cases p)
    case True
    with sh assms show ?thesis by (simp add: side_views process_move_player_eq)
  next
    case False
    with sh assms show ?thesis by (simp add: side_views process_move_bot_eq)
  qed
  with sh show
    "shoot c (defender_ships st p) (defender_destroyed st p) (attacker_hits st p) (attacker_misses st p)
       = (r, defender_destroyed st' p, attacker_hits st' p, attacker_misses st' p)"
    and "defender_destroyed st' (\<not> p) = defender_destroyed st (\<not> p)"
    and "attacker_hits st' (\<not> p) = attacker_hits st (\<not> p)"
    and "attacker_misses st' (\<not> p) = attacker_misses st (\<not> p)"
    and "player_ships st' = player_ships st" and "bot_ships st' = bot_ships st"
    and "turn st' = turn st" and "bot_target_mode st' = bot_target_mode st"
    and "bot_current_target st' = bot_current_target st"
    by (simp_all add: side_views)
qed

lemma shoot_hit_mem:
  "shoot c S D H M = (r, D', H', M') \<Longrightarrow> c \<in> H' \<or> c \<in> M'"
  by (auto simp: shoot_def Let_def split: option.splits if_splits)

lemma shoot_mono:
  "shoot c S D H M = (r, D', H', M') \<Longrightarrow> H \<subseteq> H' \<and> M \<subseteq> M'"
  by (auto simp: shoot_def Let_def split: option.splits if_splits)

subsection \<open>Properties of a move\<close>

lemma init_game_inv:
  "fleet_wf (map set ps) \<Longrightarrow> fleet_wf (map set bs) \<Longrightarrow> game_inv (init_game_state ps bs)"
  using side_inv_init [of "map set ps"] side_inv_init [of "map set bs"]
  by (simp add: game_inv_def init_game_state_def)

text \<open>
  Shot resolution on either side keeps the invariant of the game state.
\<close>

lemma process_move_inv:
  assumes inv: "game_inv st"
  shows "game_inv (snd (process_move c p st))"
proof -
  obtain r st' where mv: "process_move c p st = (r, st')" by (cases "process_move c p st")
  have side: "side_inv (defender_ships st' p) (defender_destroyed st' p) (attacker_hits st' p) (attacker_misses st' p)"
    using shoot_side_inv [OF _ _ process_move_side(1) [OF mv]] game_inv_side [OF inv, of p]
      process_move_side(5,6) [OF mv] by (cases p) (simp_all add: side_views)
  have other: "side_inv (defender_ships st' (\<not> p)) (defender_destroyed st' (\<not> p))
                 (attacker_hits st' (\<not> p)) (attacker_misses st' (\<not> p))"
    using game_inv_side [OF inv, of "\<not> p"] process_move_side(2-6) [OF mv]
    by (cases p) (simp_all add: side_views)
  have "fleet_wf (player_ships st') \<and> fleet_wf (bot_ships st')"
    using inv process_move_side(5,6) [OF mv] by (simp add: game_inv_def)
  with side other mv show ?thesis
    by (cases p) (simp_all add: game_inv_def side_views)
qed

text \<open>
  C1: every move, by either side, keeps the game invariant: both fleets stay well formed,
  each attacker's hits lie on ships and its misses never do, a destroyed flag is set
  exactly when its ship is fully hit, and the ring of every destroyed ship is all misses.
\<close>

theorem process_move_game_inv:
  assumes inv: "game_inv st"
  shows "game_inv (snd (process_move c p st))"
  by (rule process_move_inv [OF inv])

theorem process_move_not_valid_after:
  "\<not> is_valid_move c p (snd (process_move c p st))"
proof -
  obtain r st' where mv: "process_move c p st = (r, st')" by (cases "process_move c p st")
  from shoot_hit_mem [OF process_move_side(1) [OF mv]] mv show ?thesis
    by (simp add: is_valid_move_side)
qed

lemma process_move_ledger_mono:
  assumes "process_move c p st = (r, st')"
  shows "attacker_hits st q \<subseteq> attacker_hits st' q \<and> attacker_misses st q \<subseteq> attacker_misses st' q"
proof (cases "q = p")
  case True
  with shoot_mono [OF process_move_side(1) [OF assms]] show ?thesis by simp
next
  case False
  then have "q = (\<not> p)" by auto
  with process_move_side(3,4) [OF assms] show ?thesis by simp
qed

lemma shoot_result:
  assumes "fleet_ok S"
  shows "fst (shoot c S D H M) =
           (c \<in> \<Union> (set S), \<exists>i < length S. c \<in> S ! i \<and> \<not> D ! i \<and> S ! i \<subseteq> insert c H)"
proof (cases "first_ship c S")
  case None
  then show ?thesis by (auto simp: shoot_miss first_ship_None dest: nth_mem)
next
  case (Some i)
  then have i: "i < length S" "c \<in> S ! i" by (auto dest: first_ship_Some)
  then have uniq: "\<And>j. j < length S \<Longrightarrow> c \<in> S ! j \<Longrightarrow> j = i"
    using assms fleet_ok_unique by blast
  from Some i show ?thesis
    by (auto simp: shoot_def Let_def dest: uniq intro: nth_mem)
qed

lemma shoot_destroyed:
  assumes "fleet_ok S" "side_inv S D H M" "i < length S" "D ! i" "c \<in> S ! i"
  shows "shoot c S D H M = ((True, False), D, H, M)"
proof -
  have "first_ship c S = Some i" using assms(1,3,5) by (rule first_ship_eq)
  moreover have "c \<in> H" using assms(2-5) by (auto simp: side_inv_def)
  ultimately show ?thesis using assms(4) by (simp add: shoot_def insert_absorb)
qed

lemma shoot_sunk:
  assumes "shoot c S D H M = ((True, True), D', H', M')"
  shows "\<exists>i. first_ship c S = Some i \<and> D' = D[i := True] \<and> H' = insert c H \<and>
           M' = M \<union> (get_surrounding_cells (S ! i) - H')"
  using assms by (auto simp: shoot_def Let_def split: option.splits if_splits)

lemma all_nth_iff_all_set: "(\<forall>i < length S. P (S ! i)) \<longleftrightarrow> (\<forall>X \<in> set S. P X)"
  by (metis in_set_conv_nth)

lemma side_inv_all_destroyed:
  assumes "side_inv S D H M"
  shows "list_all id D \<longleftrightarrow> (\<forall>X \<in> set S. X \<subseteq> H)"
proof -
  have "list_all id D \<longleftrightarrow> (\<forall>i < length S. S ! i \<subseteq> H)"
    using assms by (simp add: side_inv_def list_all_id_nth)
  then show ?thesis using all_nth_iff_all_set [of S "\<lambda>X. X \<subseteq> H"] by simp
qed

text \<open>
  C2: the outcome of a move: it is a hit exactly when the cell belongs to a ship of the
  defending fleet, and it destroys a ship exactly when that ship was not yet flagged and
  the shot completes its cells.
\<close>

theorem process_move_result:
  assumes "game_inv st"
  shows "fst (process_move c p st) =
           (c \<in> \<Union> (set (defender_ships st p)),
            \<exists>i < length (defender_ships st p). c \<in> defender_ships st p ! i \<and>
              \<not> defender_destroyed st p ! i \<and> defender_ships st p ! i \<subseteq> insert c (attacker_hits st p))"
proof -
  obtain r st' where mv: "process_move c p st = (r, st')" by (cases "process_move c p st")
  have ok: "fleet_ok (defender_ships st p)"
    using game_inv_side [OF assms, of p] by (simp add: fleet_wf_def)
  have "fst (shoot c (defender_ships st p) (defender_destroyed st p) (attacker_hits st p)
          (attacker_misses st p)) = r"
    using process_move_side(1) [OF mv] by simp
  with shoot_result [OF ok] mv show ?thesis by simp
qed

text \<open>
  C3: a shot at a cell of a ship that is already destroyed is answered with a hit that
  destroys nothing and leaves the whole state as it was: a ship cannot be destroyed twice.
\<close>

theorem process_move_destroyed_idempotent:
  assumes "game_inv st" "i < length (defender_ships st p)" "defender_destroyed st p ! i"
    and "c \<in> defender_ships st p ! i"
  shows "process_move c p st = ((True, False), st)"
proof -
  have "fleet_wf (defender_ships st p)" and
    inv: "side_inv (defender_ships st p) (defender_destroyed st p) (attacker_hits st p) (attacker_misses st p)"
    using game_inv_side [OF assms(1), of p] by auto
  then have sh: "shoot c (defender_ships st p) (defender_destroyed st p) (attacker_hits st p)
      (attacker_misses st p) = ((True, False), defender_destroyed st p, attacker_hits st p, attacker_misses st p)"
    using assms(2-4) by (intro shoot_destroyed) (simp_all add: fleet_wf_def)
  show ?thesis
  proof (cases p)
    case True
    with sh show ?thesis by (simp add: side_views process_move_player_eq)
  next
    case False
    with sh show ?thesis by (simp add: side_views process_move_bot_eq)
  qed
qed

text \<open>
  C4: when a move destroys a ship, the ship's flag is set and every cell of the ring
  around it (\<^verbatim>\<open>get_surrounding_cells\<close>) is in the attacker's miss set, so none of
  them is left untried.
\<close>

theorem process_move_seals_ring:
  assumes "game_inv st" "process_move c p st = ((True, True), st')"
  shows "\<exists>i < length (defender_ships st p). c \<in> defender_ships st p ! i \<and>
           defender_destroyed st' p ! i \<and>
           get_surrounding_cells (defender_ships st p ! i) \<subseteq> attacker_misses st' p"
proof -
  let ?S = "defender_ships st p"
  have wf: "fleet_wf ?S"
    and inv: "side_inv ?S (defender_destroyed st p) (attacker_hits st p) (attacker_misses st p)"
    using game_inv_side [OF assms(1), of p] by auto
  note sh = process_move_side(1) [OF assms(2)]
  obtain i where i: "first_ship c ?S = Some i"
    and D': "defender_destroyed st' p = (defender_destroyed st p)[i := True]"
    and M': "attacker_misses st' p = attacker_misses st p \<union>
               (get_surrounding_cells (?S ! i) - attacker_hits st' p)"
    using shoot_sunk [OF sh] by blast
  have il: "i < length ?S" "c \<in> ?S ! i" using i by (auto dest: first_ship_Some)
  have inv': "side_inv ?S (defender_destroyed st' p) (attacker_hits st' p) (attacker_misses st' p)"
    using shoot_side_inv [OF wf inv sh] .
  then have "attacker_hits st' p \<subseteq> \<Union> (set ?S)" by (simp add: side_inv_def)
  moreover have "get_surrounding_cells (?S ! i) \<inter> \<Union> (set ?S) = {}"
    using wf il by (intro surrounding_fleet_disjoint) (simp_all add: fleet_wf_def)
  ultimately have "get_surrounding_cells (?S ! i) \<subseteq> attacker_misses st' p" using M' by blast
  moreover have "defender_destroyed st' p ! i" using D' il inv by (simp add: side_inv_def)
  ultimately show ?thesis using il by blast
qed

lemma count_update_True:
  "i < length xs \<Longrightarrow> \<not> xs ! i \<Longrightarrow> length (filter id (xs[i := True])) = Suc (length (filter id xs))"
proof (induction xs arbitrary: i)
  case (Cons x xs)
  then show ?case by (cases i) auto
qed simp

lemma shoot_sunk_count:
  assumes "length destroyed = length ships"
    and "shoot c ships destroyed hits misses = ((h, d), destroyed', hits', misses')"
  shows "length (filter id destroyed') = length (filter id destroyed) + (if d then 1 else 0)"
proof (cases "first_ship c ships")
  case None
  with assms(2) show ?thesis by (simp add: shoot_def)
next
  case (Some i)
  then have "i < length ships" by (simp add: first_ship_Some)
  with Some assms show ?thesis
    by (auto simp: shoot_def Let_def count_update_True split: if_splits)
qed

text \<open>
  C7: a shot raises the number of the defender's ships flagged destroyed by one exactly
  when it answers \<open>(True, True)\<close>, and leaves it unchanged otherwise: no ship is
  reported sunk twice, and no flag is set without the report.
\<close>

theorem process_move_sunk_count:
  assumes "game_inv st" and "process_move c p st = ((h, d), st')"
  shows "length (filter id (defender_destroyed st' p)) =
           length (filter id (defender_destroyed st p)) + (if d then 1 else 0)"
  using shoot_sunk_count [OF _ process_move_side(1) [OF assms(2)]] game_inv_side [OF assms(1), of p]
  by (simp add: side_inv_def)

text \<open>
  C6: \<^verbatim>\<open>is_game_over\<close> reports the player as winner exactly when every bot ship is
  fully hit by the player, else the bot exactly when every player ship is fully hit by
  the bot, and no winner otherwise.
\<close>

theorem is_game_over_correct:
  assumes "game_inv st"
  shows "is_game_over st =
           (if \<forall>S \<in> set (bot_ships st). S \<subseteq> player_hits st then (True, Some Player)
            else if \<forall>S \<in> set (player_ships st). S \<subseteq> bot_hits st then (True, Some Bot)
            else (False, None))"
proof -
  have "list_all id (bot_destroyed st) \<longleftrightarrow> (\<forall>S \<in> set (bot_ships st). S \<subseteq> player_hits st)"
    using assms by (intro side_inv_all_destroyed [where M = "player_misses st"]) (simp add: game_inv_def)
  moreover have "list_all id (player_destroyed st) \<longleftrightarrow> (\<forall>S \<in> set (player_ships st). S \<subseteq> bot_hits st)"
    using assms by (intro side_inv_all_destroyed [where M = "bot_misses st"]) (simp add: game_inv_def)
  ultimately show ?thesis by (simp add: is_game_over_def)
qed

lemma run_moves_keeps_invalid:
  "\<not> is_valid_move c p st \<Longrightarrow> \<not> is_valid_move c p (run_moves ms st)"
proof (induction ms arbitrary: st)
  case Nil
  then show ?case by simp
next
  case (Cons m ms)
  obtain c' p' where m: "m = (c', p')" by (cases m)
  obtain r st' where mv: "process_move c' p' st = (r, st')" by (cases "process_move c' p' st")
  have "\<not> is_valid_move c p st'"
    using Cons.prems process_move_ledger_mono [OF mv, of p] by (auto simp: is_valid_move_side)
  then show ?case using Cons.IH m mv by simp
qed

text \<open>
  C5: along any sequence of moves, every coordinate an attacker has fired at is no longer
  a valid move for that attacker: no cell is tried twice by the same side.
\<close>

theorem run_moves_no_retry:
  "(c, p) \<in> set ms \<Longrightarrow> \<not> is_valid_move c p (run_moves ms st)"
proof (induction ms arbitrary: st)
  case Nil
  then show ?case by simp
next
  case (Cons m ms)
  obtain c' p' where m: "m = (c', p')" by (cases m)
  show ?case
  proof (cases "(c, p) \<in> set ms")
    case True
    with Cons.IH m show ?thesis by simp
  next
    case False
    with Cons.prems m have "c' = c" "p' = p" by auto
    with m process_move_not_valid_after [of c p st] show ?thesis
      by (simp add: run_moves_keeps_invalid)
  qed
qed

subsection \<open>The example game\<close>

lemma fleet_wf_single: "S \<noteq> {} \<Longrightarrow> fleet_wf [S]"
  by (simp add: fleet_wf_def fleet_ok_def)

lemma example_game_inv: "game_inv example_game"
  unfolding example_game_def by (rule init_game_inv) (simp_all add: fleet_wf_single)

lemma example_sunk_inv: "game_inv example_sunk"
  unfolding example_sunk_def example_game_def by code_simp

lemma example_bot_sinks: "process_move (0, 0) False example_game = ((True, True), example_sunk)"
  unfolding example_sunk_def example_game_def by code_simp

text \<open>C1, witness: the bot's winning shot in the example game keeps the invariant.\<close>

theorem process_move_game_inv_witness: "game_inv (snd (process_move (0, 0) False example_game))"
  by (rule process_move_game_inv [OF example_game_inv])

text \<open>C2, witness: the bot's shot at (0,0) in the example game hits and destroys.\<close>

theorem process_move_result_witness: "fst (process_move (0, 0) False example_game) = (True, True)"
  using process_move_result [OF example_game_inv, of "(0, 0)" False]
  by (simp add: example_game_def init_game_state_def side_views)

text \<open>C3, witness: shooting the sunk player ship again changes nothing.\<close>

theorem process_move_destroyed_idempotent_witness:
  "process_move (0, 0) False example_sunk = ((True, False), example_sunk)"
  by (rule process_move_destroyed_idempotent [OF example_sunk_inv, of 0])
    (simp_all add: example_sunk_def example_game_def init_game_state_def side_views)

text \<open>C4, witness: the ring of the sunk ship at (0,0) is all misses.\<close>

theorem process_move_seals_ring_witness:
  "get_surrounding_cells {(0, 0)} \<subseteq> attacker_misses example_sunk False"
proof -
  obtain i where "i < length (defender_ships example_game False)"
    and "get_surrounding_cells (defender_ships example_game False ! i) \<subseteq> attacker_misses example_sunk False"
    using process_move_seals_ring [OF example_game_inv example_bot_sinks] by blast
  then show ?thesis by (simp add: example_game_def init_game_state_def side_views)
qed

text \<open>C7, witness: the bot sinks the player's one-cell ship in the example game.\<close>

theorem process_move_sunk_count_witness:
  "length (filter id (defender_destroyed example_sunk False)) =
     length (filter id (defender_destroyed example_game False)) + 1"
  using process_move_sunk_count [OF example_game_inv example_bot_sinks] by simp

text \<open>C6, witness: in the sunk example the bot has won.\<close>

theorem is_game_over_correct_witness: "is_game_over example_sunk = (True, Some Bot)"
  using is_game_over_correct [OF example_sunk_inv]
  by (simp add: example_sunk_def example_game_def init_game_state_def)

text \<open>C5, witness: after the bot fires at (0,0) and the player at (5,5), the bot may not fire at (0,0).\<close>

theorem run_moves_no_retry_witness:
  "\<not> is_valid_move (0, 0) False (run_moves [((0, 0), False), ((5, 5), True)] example_game)"
  by (rule run_moves_no_retry) simp

end
