(* ===== verification/Notation.thy ===== *)
theory Notation
  imports Geometry
begin

text \<open>
  Coordinate text notation and ship input parsing: \<^verbatim>\<open>coord_to_str\<close> and
  \<^verbatim>\<open>str_to_coord\<close> of \<^verbatim>\<open>src/src/utils.py\<close>, and
  \<^verbatim>\<open>parse_ship_input\<close> of \<^verbatim>\<open>src/src/ship_input.py\<close>.  They rest on the
  Python builtins \<^verbatim>\<open>str(int)\<close>, \<^verbatim>\<open>int(str)\<close>, \<^verbatim>\<open>str.strip\<close>,
  \<^verbatim>\<open>str.split\<close> and \<^verbatim>\<open>str.upper\<close>, modelled here on strings of
  ASCII characters (CPython's rules for Unicode digits, Unicode white space and
  multi-character upper cases are outside the model).  The lemmas prove the round trips
  of the notation and of \<^verbatim>\<open>int\<close>/\<^verbatim>\<open>str\<close>, that the ship parser is
  all-or-nothing, and show which non-canonical spellings the parser accepts.
\<close>

subsection \<open>Python string builtins on ASCII\<close>

text \<open>\<^verbatim>\<open>str.isspace\<close> on ASCII: tab, line feed, vertical tab, form feed,
  carriage return, the four separators 0x1c--0x1f, and the space.\<close>

definition py_isspace :: "char \<Rightarrow> bool" where
  "py_isspace c \<longleftrightarrow> (let n = of_char c :: nat in (9 \<le> n \<and> n \<le> 13) \<or> (28 \<le> n \<and> n \<le> 32))"

definition is_digit :: "char \<Rightarrow> bool" where
  "is_digit c \<longleftrightarrow> (let n = of_char c :: nat in 48 \<le> n \<and> n \<le> 57)"

definition py_strip :: "string \<Rightarrow> string" where
  "py_strip s = rev (dropWhile py_isspace (rev (dropWhile py_isspace s)))"

text \<open>\<^verbatim>\<open>str.split()\<close> without a separator: maximal runs of non-space characters.\<close>

function py_split :: "string \<Rightarrow> string list" where
  "py_split s =
     (let s' = dropWhile py_isspace s in
      if s' = [] then []
      else takeWhile (Not \<circ> py_isspace) s' # py_split (dropWhile (Not \<circ> py_isspace) s'))"
  by pat_completeness auto
termination
proof (relation "measure length")
  fix s s' :: string
  assume s': "s' = dropWhile py_isspace s" "s' \<noteq> []"
  then obtain c r where cr: "s' = c # r" "\<not> py_isspace c"
    by (metis dropWhile_eq_Cons_conv neq_Nil_conv)
  have "length (dropWhile (Not \<circ> py_isspace) s') \<le> length r"
    using cr by (simp add: length_dropWhile_le)
  moreover have "length s' \<le> length s"
    using s' by (simp add: length_dropWhile_le)
  ultimately show "(dropWhile (Not \<circ> py_isspace) s', s) \<in> measure length"
    using cr by simp
qed simp

declare py_split.simps [simp del]

text \<open>\<^verbatim>\<open>str.upper\<close> on one ASCII character.\<close>

definition py_upper :: "char \<Rightarrow> char" where
  "py_upper c = (let n = of_char c :: nat in if 97 \<le> n \<and> n \<le> 122 then char_of (n - 32) else c)"

text \<open>
  The digit strings \<^verbatim>\<open>int()\<close> accepts in base 10: digits, with single
  underscores allowed between two digits.
\<close>

fun py_digits :: "string \<Rightarrow> bool" where
  "py_digits [] = False"
| "py_digits [c] = is_digit c"
| "py_digits (c # d # cs) =
     (is_digit c \<and> (if d = CHR ''_'' then py_digits cs else py_digits (d # cs)))"

definition digits_val :: "string \<Rightarrow> nat" where
  "digits_val ds = foldl (\<lambda>acc d. 10 * acc + (of_char d - 48)) 0 ds"

text \<open>
  \<^verbatim>\<open>int(s)\<close>: surrounding white space is stripped, one optional sign is
  read, and the rest must be a digit string; otherwise \<^verbatim>\<open>ValueError\<close>.
\<close>

definition py_int :: "string \<Rightarrow> py_error + int" where
  "py_int s =
     (let t = py_strip s;
          (neg, body) = (case t of
                           c # r \<Rightarrow> if c = CHR ''-'' then (True, r)
                                    else if c = CHR ''+'' then (False, r) else (False, t)
                         | [] \<Rightarrow> (False, []))
      in if py_digits body
         then Inr ((if neg then -1 else 1) * int (digits_val (filter (\<lambda>c. c \<noteq> CHR ''_'') body)))
         else Inl ValueError)"

text \<open>\<^verbatim>\<open>str(n)\<close>: decimal digits, with a minus sign when negative.\<close>

fun nat_str :: "nat \<Rightarrow> string" where
  "nat_str n = (if n < 10 then [char_of (48 + n)] else nat_str (n div 10) @ [char_of (48 + n mod 10)])"

declare nat_str.simps [simp del]

definition py_str_int :: "int \<Rightarrow> string" where
  "py_str_int i = (if i < 0 then CHR ''-'' # nat_str (nat (- i)) else nat_str (nat i))"

subsection \<open>The notation (\<^verbatim>\<open>utils.py\<close>)\<close>

text \<open>
  \<^verbatim>\<open>coord_to_str(row, col)\<close> is \<^verbatim>\<open>chr(ord('A') + col)\<close> followed by
  \<^verbatim>\<open>str(row + 1)\<close>.  The character is exact for \<open>-65 \<le> col \<le> 190\<close>,
  which covers every column the program passes (all in bounds).
\<close>

definition coord_to_str :: "int \<Rightarrow> int \<Rightarrow> string" where
  "coord_to_str row col = char_of (nat (65 + col)) # py_str_int (row + 1)"

text \<open>
  \<^verbatim>\<open>str_to_coord(s)\<close>: \<^verbatim>\<open>s[0]\<close> raises \<^verbatim>\<open>IndexError\<close> on the
  empty string, \<^verbatim>\<open>int(s[1:])\<close> raises \<^verbatim>\<open>ValueError\<close>.  No bounds check.
\<close>

definition str_to_coord :: "string \<Rightarrow> py_error + coord" where
  "str_to_coord s =
     (case s of
        [] \<Rightarrow> Inl IndexError
      | c # rest \<Rightarrow>
          (let col = int (of_char (py_upper c)) - 65 in
           case py_int rest of
             Inl e \<Rightarrow> Inl e
           | Inr n \<Rightarrow> Inr (n - 1, col)))"

subsection \<open>Ship input (\<^verbatim>\<open>ship_input.py\<close>)\<close>

text \<open>
  The loop of \<^verbatim>\<open>parse_ship_input\<close> over the parts: \<open>coords\<close> is the
  accumulator; an out-of-bounds part, a \<^verbatim>\<open>ValueError\<close> or an
  \<^verbatim>\<open>IndexError\<close> makes the whole call return \<open>[]\<close>.
\<close>

fun parse_parts :: "coord list \<Rightarrow> string list \<Rightarrow> coord list" where
  "parse_parts coords [] = coords"
| "parse_parts coords (part # parts) =
     (case part of
        [] \<Rightarrow> []
      | c # rest \<Rightarrow>
          (let col = int (of_char (py_upper c)) - 65 in
           case py_int rest of
             Inl _ \<Rightarrow> []
           | Inr n \<Rightarrow>
               (let row = n - 1 in
                if 0 \<le> row \<and> row < BOARD_SIZE \<and> 0 \<le> col \<and> col < BOARD_SIZE
                then parse_parts (coords @ [(row, col)]) parts
                else [])))"

definition parse_ship_input :: "string \<Rightarrow> coord list" where
  "parse_ship_input input_str = parse_parts [] (py_split (py_strip input_str))"

subsection \<open>Reference definitions\<close>

text \<open>One part, read as \<^verbatim>\<open>str_to_coord\<close> reads it, kept when in bounds.\<close>

definition parse_part :: "string \<Rightarrow> coord option" where
  "parse_part p = (case str_to_coord p of Inr c \<Rightarrow> if in_bounds c then Some c else None | Inl _ \<Rightarrow> None)"

text \<open>\<^verbatim>\<open>' '.join(words)\<close>, the input a player types for a ship.\<close>

fun join_words :: "string list \<Rightarrow> string" where
  "join_words [] = []"
| "join_words [w] = w"
| "join_words (w # v # ws) = w @ CHR '' '' # join_words (v # ws)"

definition ship_text :: "coord list \<Rightarrow> string" where
  "ship_text cs = join_words (map (\<lambda>(r, c). coord_to_str r c) cs)"

subsection \<open>Characters and digits\<close>

lemma of_char_digit [simp]: "(d :: nat) < 10 \<Longrightarrow> (of_char (char_of (48 + d) :: char) :: nat) = 48 + d"
  by (simp add: of_char_of)

lemma char_ne_by_code: "(of_char a :: nat) \<noteq> of_char b \<Longrightarrow> a \<noteq> b"
  by auto

lemma digit_char_props [simp]:
  assumes "(d :: nat) < 10"
  shows "is_digit (char_of (48 + d))" "\<not> py_isspace (char_of (48 + d))"
    "char_of (48 + d) \<noteq> CHR ''_''" "char_of (48 + d) \<noteq> CHR ''-''" "char_of (48 + d) \<noteq> CHR ''+''"
proof -
  have o: "(of_char (char_of (48 + d) :: char) :: nat) = 48 + d" using assms by simp
  show "is_digit (char_of (48 + d))" "\<not> py_isspace (char_of (48 + d))"
    using assms by (simp_all add: is_digit_def py_isspace_def o)
  show "char_of (48 + d) \<noteq> CHR ''_''" "char_of (48 + d) \<noteq> CHR ''-''" "char_of (48 + d) \<noteq> CHR ''+''"
    by (rule char_ne_by_code, unfold o, use assms in simp)+
qed

lemma nat_str_digits: "c \<in> set (nat_str n) \<Longrightarrow> \<exists>d :: nat. d < 10 \<and> c = char_of (48 + d)"
proof (induction n rule: nat_str.induct)
  case (1 n)
  show ?case
  proof (cases "n < 10")
    case True
    with 1(2) show ?thesis by (auto simp: nat_str.simps[of n])
  next
    case False
    with 1(2) have "c \<in> set (nat_str (n div 10)) \<or> c = char_of (48 + n mod 10)"
      by (auto simp: nat_str.simps[of n])
    moreover have "n mod 10 < (10 :: nat)" by simp
    ultimately show ?thesis using 1(1) False by blast
  qed
qed

lemma nat_str_ne [simp]: "nat_str n \<noteq> []"
  by (simp add: nat_str.simps[of n])

lemma nat_str_chars:
  assumes "c \<in> set (nat_str n)"
  shows "is_digit c" "\<not> py_isspace c" "c \<noteq> CHR ''_''" "c \<noteq> CHR ''-''" "c \<noteq> CHR ''+''"
  using nat_str_digits [OF assms] by auto

lemma digits_val_snoc: "digits_val (ds @ [d]) = 10 * digits_val ds + (of_char d - 48)"
  by (simp add: digits_val_def)

lemma digits_val_nat_str [simp]: "digits_val (nat_str n) = n"
proof (induction n rule: nat_str.induct)
  case (1 n)
  then show ?case
    by (cases "n < 10") (simp_all add: nat_str.simps[of n] digits_val_snoc digits_val_def)
qed

lemma py_digits_all_digits: "s \<noteq> [] \<Longrightarrow> \<forall>c \<in> set s. is_digit c \<and> c \<noteq> CHR ''_'' \<Longrightarrow> py_digits s"
  by (induction s rule: py_digits.induct) auto

lemma py_strip_no_space: "\<forall>c \<in> set s. \<not> py_isspace c \<Longrightarrow> py_strip s = s"
  by (simp add: py_strip_def dropWhile_all_not)

subsection \<open>Round trip of \<^verbatim>\<open>int\<close> and \<^verbatim>\<open>str\<close>\<close>

lemma py_int_unsigned:
  "py_strip s = s \<Longrightarrow> s = c # r \<Longrightarrow> c \<noteq> CHR ''-'' \<Longrightarrow> c \<noteq> CHR ''+'' \<Longrightarrow>
   py_int s = (if py_digits s then Inr (int (digits_val (filter (\<lambda>c. c \<noteq> CHR ''_'') s)))
               else Inl ValueError)"
  unfolding py_int_def by (simp only: Let_def) simp

lemma py_int_negative:
  "py_strip s = s \<Longrightarrow> s = CHR ''-'' # body \<Longrightarrow>
   py_int s = (if py_digits body then Inr (- int (digits_val (filter (\<lambda>c. c \<noteq> CHR ''_'') body)))
               else Inl ValueError)"
  unfolding py_int_def by (simp only: Let_def) simp

lemma nat_str_facts:
  "py_strip (nat_str n) = nat_str n" "py_digits (nat_str n)"
  "filter (\<lambda>c. c \<noteq> CHR ''_'') (nat_str n) = nat_str n"
proof -
  have ch: "\<forall>c \<in> set (nat_str n). is_digit c \<and> \<not> py_isspace c \<and> c \<noteq> CHR ''_''"
    using nat_str_chars by blast
  then show "py_strip (nat_str n) = nat_str n"
    by (simp add: py_strip_no_space)
  show "py_digits (nat_str n)"
    using ch by (intro py_digits_all_digits) auto
  show "filter (\<lambda>c. c \<noteq> CHR ''_'') (nat_str n) = nat_str n"
    using ch by (simp add: filter_id_all)
qed

lemma py_int_nat_str: "py_int (nat_str n) = Inr (int n)"
proof -
  obtain c r where cr: "nat_str n = c # r"
    by (cases "nat_str n") auto
  then have "c \<in> set (nat_str n)" by simp
  then have "c \<noteq> CHR ''-''" "c \<noteq> CHR ''+''"
    by (simp_all add: nat_str_chars)
  from py_int_unsigned [OF nat_str_facts(1) cr this] show ?thesis
    by (simp add: nat_str_facts)
qed

lemma py_int_py_str_int: "py_int (py_str_int i) = Inr i"
proof (cases "i < 0")
  case True
  let ?m = "nat (- i)"
  have "\<forall>c \<in> set (CHR ''-'' # nat_str ?m). \<not> py_isspace c"
    using nat_str_chars by (auto simp: py_isspace_def)
  then have "py_strip (CHR ''-'' # nat_str ?m) = CHR ''-'' # nat_str ?m"
    by (rule py_strip_no_space)
  from py_int_negative [OF this refl] True show ?thesis
    by (simp add: py_str_int_def nat_str_facts)
next
  case False
  then show ?thesis
    by (simp add: py_str_int_def py_int_nat_str)
qed

subsection \<open>Round trip of the notation\<close>

lemma py_upper_id: "\<not> (97 \<le> (of_char c :: nat) \<and> (of_char c :: nat) \<le> 122) \<Longrightarrow> py_upper c = c"
  unfolding py_upper_def Let_def by (rule if_not_P)

text \<open>
  \<^verbatim>\<open>str_to_coord\<close> inverts \<^verbatim>\<open>coord_to_str\<close> on every row and on every
  column whose letter \<^verbatim>\<open>chr(65 + col)\<close> is a Latin-1 character that
  \<^verbatim>\<open>upper()\<close> leaves alone.
\<close>

lemma str_to_coord_coord_to_str:
  assumes "-65 \<le> col" "col \<le> 190" "\<not> (32 \<le> col \<and> col \<le> 57)"
  shows "str_to_coord (coord_to_str row col) = Inr (row, col)"
proof -
  let ?c = "char_of (nat (65 + col)) :: char"
  have code: "(of_char ?c :: nat) = nat (65 + col)"
    using assms by (simp add: of_char_of)
  moreover have "\<not> (97 \<le> nat (65 + col) \<and> nat (65 + col) \<le> 122)"
    using assms by linarith
  ultimately have "py_upper ?c = ?c"
    by (intro py_upper_id) simp
  with code assms show ?thesis
    unfolding str_to_coord_def coord_to_str_def by (simp add: py_int_py_str_int)
qed



subsection \<open>The ship parser\<close>

lemma parse_parts_eq:
  "parse_parts acc ps = (case those (map parse_part ps) of Some cs \<Rightarrow> acc @ cs | None \<Rightarrow> [])"
proof (induction acc ps rule: parse_parts.induct)
  case (1 coords)
  then show ?case by simp
next
  case (2 coords part parts)
  then show ?case
    by (cases part) (auto simp: parse_part_def str_to_coord_def in_bounds_def Let_def
                          split: sum.splits option.splits)
qed

lemma py_split_dropWhile: "py_split (dropWhile py_isspace s) = py_split s"
  by (subst (1 2) py_split.simps) (simp add: dropWhile_idem)

lemma py_split_space: "py_isspace c \<Longrightarrow> py_split (c # s) = py_split s"
  using py_split_dropWhile [of "c # s"] py_split_dropWhile [of s] by simp

lemma py_split_word:
  assumes "w \<noteq> []" "\<forall>c \<in> set w. \<not> py_isspace c" "rest = [] \<or> py_isspace (hd rest)"
  shows "py_split (w @ rest) = w # py_split rest"
proof -
  have "dropWhile py_isspace (w @ rest) = w @ rest"
    using assms(1,2) by (cases w) auto
  moreover have "takeWhile (Not \<circ> py_isspace) (w @ rest) = w"
    using assms(2,3) by (cases rest) (auto simp: takeWhile_append2)
  moreover have "dropWhile (Not \<circ> py_isspace) (w @ rest) = rest"
    using assms(2,3) by (cases rest) (auto simp: dropWhile_append2)
  ultimately show ?thesis
    using assms(1) by (subst py_split.simps) (simp add: py_split_dropWhile)
qed

lemma py_split_join_words:
  "\<forall>w \<in> set ws. w \<noteq> [] \<and> (\<forall>c \<in> set w. \<not> py_isspace c) \<Longrightarrow> py_split (join_words ws) = ws"
proof (induction ws rule: join_words.induct)
  case 1
  then show ?case by (simp add: py_split.simps)
next
  case (2 w)
  then show ?case using py_split_word [of w "[]"] by (simp add: py_split.simps[of "[]"])
next
  case (3 w v ws)
  have sp: "py_isspace (CHR '' '')" by (simp add: py_isspace_def)
  from 3 have "py_split (w @ CHR '' '' # join_words (v # ws)) = w # py_split (CHR '' '' # join_words (v # ws))"
    by (intro py_split_word) (auto simp: sp)
  with 3 sp show ?case by (simp add: py_split_space)
qed

lemma join_words_ends:
  "ws \<noteq> [] \<Longrightarrow> \<forall>w \<in> set ws. w \<noteq> [] \<Longrightarrow>
   join_words ws \<noteq> [] \<and> hd (join_words ws) = hd (hd ws) \<and> last (join_words ws) = last (last ws)"
  by (induction ws rule: join_words.induct) auto

lemma py_strip_join_words:
  assumes "\<forall>w \<in> set ws. w \<noteq> [] \<and> (\<forall>c \<in> set w. \<not> py_isspace c)"
  shows "py_strip (join_words ws) = join_words ws"
proof (cases "ws = []")
  case False
  let ?j = "join_words ws"
  have ends: "?j \<noteq> [] \<and> hd ?j = hd (hd ws) \<and> last ?j = last (last ws)"
    using False assms by (intro join_words_ends) auto
  have "hd ws \<in> set ws" "last ws \<in> set ws"
    using False by simp_all
  then have a: "\<not> py_isspace (hd ?j)" and b: "\<not> py_isspace (last ?j)"
    using ends assms by (metis hd_in_set last_in_set)+
  have "dropWhile py_isspace ?j = ?j"
    using a by (simp add: dropWhile_eq_self_iff)
  moreover have "dropWhile py_isspace (rev ?j) = rev ?j"
    using b ends by (simp add: dropWhile_eq_self_iff hd_rev)
  ultimately show ?thesis
    by (simp add: py_strip_def)
qed (simp add: py_strip_def)

lemma coord_to_str_word:
  assumes "in_bounds (r, c)"
  shows "coord_to_str r c \<noteq> []" "\<forall>ch \<in> set (coord_to_str r c). \<not> py_isspace ch"
proof -
  have "nat (65 + c) < 256"
    using assms by (auto simp: in_bounds_def BOARD_SIZE_def nat_less_iff)
  then have "(of_char (char_of (nat (65 + c)) :: char) :: nat) = nat (65 + c)"
    by (simp add: of_char_of)
  then have "\<not> py_isspace (char_of (nat (65 + c)))"
    using assms by (simp add: py_isspace_def Let_def in_bounds_def BOARD_SIZE_def nat_le_iff le_nat_iff)
  moreover have "\<forall>ch \<in> set (py_str_int (r + 1)). \<not> py_isspace ch"
    using assms nat_str_chars by (auto simp: py_str_int_def in_bounds_def)
  ultimately show "\<forall>ch \<in> set (coord_to_str r c). \<not> py_isspace ch"
    by (simp add: coord_to_str_def)
qed (simp add: coord_to_str_def)


lemma coord_to_str_upper:
  assumes "in_bounds (r, c)"
  shows "map py_upper (coord_to_str r c) = coord_to_str r c"
proof -
  have "nat (65 + c) < 256"
    using assms by (auto simp: in_bounds_def BOARD_SIZE_def nat_less_iff)
  then have h: "(of_char (char_of (nat (65 + c)) :: char) :: nat) = nat (65 + c)"
    by (simp add: of_char_of)
  have "py_upper (char_of (nat (65 + c))) = char_of (nat (65 + c))"
    using assms h by (intro py_upper_id) (auto simp: in_bounds_def BOARD_SIZE_def)
  moreover have "py_upper ch = ch" if "ch \<in> set (py_str_int (r + 1))" for ch
  proof -
    have "ch \<in> set (nat_str (nat (r + 1)))"
      using that assms by (simp add: py_str_int_def in_bounds_def)
    then obtain d :: nat where "d < 10" "ch = char_of (48 + d)"
      using nat_str_digits by blast
    then show ?thesis by (intro py_upper_id) simp
  qed
  ultimately show ?thesis
    by (simp add: coord_to_str_def map_idI)
qed

lemma parse_part_coord_to_str: "in_bounds (r, c) \<Longrightarrow> parse_part (coord_to_str r c) = Some (r, c)"
  using str_to_coord_coord_to_str [of c r] by (simp add: parse_part_def in_bounds_def BOARD_SIZE_def)

lemma parse_part_in_bounds: "parse_part p = Some c \<Longrightarrow> in_bounds c"
  by (simp add: parse_part_def split: sum.splits if_splits)

lemma py_int_plus:
  "py_strip s = s \<Longrightarrow> s = CHR ''+'' # body \<Longrightarrow>
   py_int s = (if py_digits body then Inr (int (digits_val (filter (\<lambda>c. c \<noteq> CHR ''_'') body)))
               else Inl ValueError)"
  unfolding py_int_def by (simp only: Let_def) simp

lemma digits_val_zeros: "digits_val (replicate k CHR ''0'' @ ds) = digits_val ds"
proof -
  have "foldl (\<lambda>acc d. 10 * acc + (of_char d - 48)) 0 (replicate k CHR ''0'') = (0 :: nat)"
    by (induction k) simp_all
  then show ?thesis
    by (simp add: digits_val_def)
qed

text \<open>A row number written with \<open>k\<close> leading zeros, as \<^verbatim>\<open>int()\<close> reads it.\<close>

lemma py_int_zero_padded:
  assumes "0 \<le> r"
  shows "py_int (replicate k CHR ''0'' @ py_str_int (r + 1)) = Inr (r + 1)"
    and "py_int (CHR ''+'' # replicate k CHR ''0'' @ py_str_int (r + 1)) = Inr (r + 1)"
proof -
  let ?ds = "nat_str (nat (r + 1))"
  let ?body = "replicate k CHR ''0'' @ ?ds"
  have ds: "py_str_int (r + 1) = ?ds"
    using assms by (simp add: py_str_int_def)
  have ch: "\<forall>x \<in> set ?body. is_digit x \<and> \<not> py_isspace x \<and> x \<noteq> CHR ''_''"
    using nat_str_chars [of _ "nat (r + 1)"] by (auto simp: is_digit_def py_isspace_def)
  have strip: "py_strip ?body = ?body"
    using ch by (simp add: py_strip_no_space)
  have dig: "py_digits ?body"
    using ch by (intro py_digits_all_digits) auto
  have filt: "filter (\<lambda>c. c \<noteq> CHR ''_'') ?body = ?body"
    using ch by (simp add: filter_id_all)
  have val: "int (digits_val ?body) = r + 1"
    using assms by (simp add: digits_val_zeros)
  have "?body \<noteq> []" by simp
  then obtain x rest where xr: "?body = x # rest"
    by (cases ?body) simp_all
  then have "is_digit x"
    using ch by (metis list.set_intros(1))
  then have x: "x \<noteq> CHR ''-''" "x \<noteq> CHR ''+''"
    by (auto simp: is_digit_def)
  show "py_int (replicate k CHR ''0'' @ py_str_int (r + 1)) = Inr (r + 1)"
    using py_int_unsigned [OF strip xr x] dig filt val ds by simp
  have "py_strip (CHR ''+'' # ?body) = CHR ''+'' # ?body"
    using ch by (simp add: py_strip_no_space py_isspace_def)
  from py_int_plus [OF this refl]
  show "py_int (CHR ''+'' # replicate k CHR ''0'' @ py_str_int (r + 1)) = Inr (r + 1)"
    using dig filt val ds by simp
qed

lemma py_upper_lower_letter:
  assumes "0 \<le> c" "c < 26"
  shows "int (of_char (py_upper (char_of (nat (97 + c)))) :: nat) - 65 = c"
proof -
  define n where "n = nat (97 + c)"
  have n: "97 \<le> n" "n \<le> 122" "int n = 97 + c"
    using assms unfolding n_def by simp_all
  have o: "(of_char (char_of n :: char) :: nat) = n"
    using n by (simp add: of_char_of)
  have "py_upper (char_of n) = char_of (n - 32)"
    using n o by (simp add: py_upper_def Let_def)
  moreover have "(of_char (char_of (n - 32) :: char) :: nat) = n - 32"
    using n by (simp add: of_char_of)
  ultimately show ?thesis
    using n unfolding n_def [symmetric] by simp
qed
subsection \<open>Properties\<close>

text \<open>
  C16: the coordinate notation round-trips on the board: for \<open>0 \<le> row, col < 10\<close>,
  \<^verbatim>\<open>str_to_coord(coord_to_str(row, col)) == (row, col)\<close>.
\<close>

theorem coord_notation_round_trip:
  "in_bounds (row, col) \<Longrightarrow> str_to_coord (coord_to_str row col) = Inr (row, col)"
  by (rule str_to_coord_coord_to_str) (auto simp: in_bounds_def BOARD_SIZE_def)

text \<open>
  C17: the ship parser reads back what a player types for a ship: the cells of any
  in-bounds coordinate list, written in the notation and separated by spaces, parse to
  that same list, in order.
\<close>

theorem parse_ship_input_round_trip:
  "list_all in_bounds cs \<Longrightarrow> parse_ship_input (ship_text cs) = cs"
proof -
  assume cs: "list_all in_bounds cs"
  let ?ws = "map (\<lambda>(r, c). coord_to_str r c) cs"
  have words: "\<forall>w \<in> set ?ws. w \<noteq> [] \<and> (\<forall>ch \<in> set w. \<not> py_isspace ch)"
    using cs coord_to_str_word by (auto simp: list_all_iff)
  have "map parse_part ?ws = map Some cs"
    using cs by (induction cs) (auto simp: parse_part_coord_to_str)
  then have "those (map parse_part ?ws) = Some cs"
    by (simp add: those_map_Some_iff list_all2_conv_all_nth)
  with words show ?thesis
    by (simp add: parse_ship_input_def ship_text_def parse_parts_eq py_strip_join_words
                  py_split_join_words)
qed

text \<open>
  C18: the loop of \<^verbatim>\<open>parse_ship_input\<close>, which inlines the conversion, agrees
  with converting every part by \<^verbatim>\<open>str_to_coord\<close> and checking its bounds: the
  result is the list of converted parts when all of them convert and lie on the board,
  and \<open>[]\<close> otherwise.
\<close>

theorem parse_ship_input_eq_str_to_coord:
  "parse_ship_input s =
     (case those (map parse_part (py_split (py_strip s))) of Some cs \<Rightarrow> cs | None \<Rightarrow> [])"
  by (simp add: parse_ship_input_def parse_parts_eq split: option.split)

text \<open>
  C19: \<^verbatim>\<open>parse_ship_input\<close> is all-or-nothing: it returns \<open>[]\<close>, or one
  in-bounds cell for every white-space separated part of the input.
\<close>

theorem parse_ship_input_all_or_nothing:
  "parse_ship_input s = [] \<or>
   (list_all in_bounds (parse_ship_input s) \<and>
    length (parse_ship_input s) = length (py_split (py_strip s)))"
proof (cases "those (map parse_part (py_split (py_strip s)))")
  case (Some cs)
  then have "list_all2 (\<lambda>x y. parse_part x = Some y) (py_split (py_strip s)) cs"
    by (simp add: those_map_Some_iff)
  then have "list_all in_bounds cs \<and> length cs = length (py_split (py_strip s))"
    by (auto simp: list_all2_conv_all_nth list_all_length dest: parse_part_in_bounds)
  with Some show ?thesis
    by (simp add: parse_ship_input_def parse_parts_eq)
qed (simp add: parse_ship_input_def parse_parts_eq)

subsection \<open>Concrete behaviour\<close>

text \<open>
  C23: \<^verbatim>\<open>int()\<close> and \<^verbatim>\<open>upper()\<close> make the notation lenient: for every cell
  of the board, the lower-case letter followed by the row number with any number of
  leading zeros, with or without a \<^verbatim>\<open>+\<close> sign, names that cell, so each cell has
  infinitely many spellings and \<^verbatim>\<open>str_to_coord\<close> is not injective.
\<close>

theorem str_to_coord_lenient:
  assumes "in_bounds (r, c)"
  shows "str_to_coord (char_of (nat (97 + c)) # replicate k CHR ''0'' @ py_str_int (r + 1)) = Inr (r, c) \<and>
         str_to_coord (char_of (nat (97 + c)) # CHR ''+'' # replicate k CHR ''0'' @ py_str_int (r + 1)) = Inr (r, c)"
proof -
  have b: "0 \<le> r" "0 \<le> c" "c < 26"
    using assms by (auto simp: in_bounds_def BOARD_SIZE_def)
  note col = py_upper_lower_letter [OF b(2,3)]
  show ?thesis
    using py_int_zero_padded [OF b(1), of k] col by (simp add: str_to_coord_def)
qed

lemma str_to_coord_errors:
  "str_to_coord [] = Inl IndexError" "str_to_coord ''A'' = Inl ValueError"
  "str_to_coord ''A1__0'' = Inl ValueError" "str_to_coord ''K3'' = Inr (2, 10)"
  by code_simp+

lemma parse_ship_input_examples:
  "parse_ship_input '' A1 a2\<newline>A3 '' = [(0, 0), (1, 0), (2, 0)]"
  "parse_ship_input ''A1 A0'' = []" "parse_ship_input ''A1 A2x'' = []"
  "parse_ship_input ''A1_0 B01'' = [(9, 0), (0, 1)]"
  by code_simp+

subsection \<open>Witnesses\<close>

text \<open>C16, witness: the bottom-right cell J10 round-trips.\<close>

theorem coord_notation_round_trip_witness:
  "in_bounds (9, 9) \<and> str_to_coord (coord_to_str 9 9) = Inr (9, 9)"
  using coord_notation_round_trip [of 9 9] by (simp add: in_bounds_def BOARD_SIZE_def)

text \<open>C17, witness: the three-cell ship E4 F4 G4 round-trips through the parser.\<close>

theorem parse_ship_input_round_trip_witness:
  "list_all in_bounds [(3, 4), (3, 5), (3, 6)] \<and>
   parse_ship_input (ship_text [(3, 4), (3, 5), (3, 6)]) = [(3, 4), (3, 5), (3, 6)]"
  using parse_ship_input_round_trip [of "[(3, 4), (3, 5), (3, 6)]"]
  by (simp add: in_bounds_def BOARD_SIZE_def)

text \<open>C23, witness: \<^verbatim>\<open>j007\<close> and \<^verbatim>\<open>j+007\<close> both name J7.\<close>

theorem str_to_coord_lenient_witness:
  "str_to_coord (char_of (nat (97 + 9)) # replicate 2 CHR ''0'' @ py_str_int (6 + 1)) = Inr (6, 9) \<and>
   str_to_coord (char_of (nat (97 + 9)) # CHR ''+'' # replicate 2 CHR ''0'' @ py_str_int (6 + 1)) = Inr (6, 9)"
proof -
  have "in_bounds (6, 9)" by (simp add: in_bounds_def BOARD_SIZE_def)
  from str_to_coord_lenient [OF this, of 2] show ?thesis by simp
qed

end
