(* ===== verification/Persistence.thy ===== *)
theory Persistence
  imports GameState Notation "HOL-Library.AList"
begin

text \<open>
  The CSV files of the program at the level of rows of fields: the ship lists written
  by \<^verbatim>\<open>save_ships_to_csv\<close> and read back by \<^verbatim>\<open>load_ships_from_csv\<close>
  (\<^verbatim>\<open>src/src/utils.py\<close>), and the turn log appended by
  \<^verbatim>\<open>GameState.save_state_to_csv\<close> (\<^verbatim>\<open>src/src/gameplay.py\<close>).  A file is
  its list of rows; \<^verbatim>\<open>csv.writer\<close> writes \<^verbatim>\<open>str\<close> of each field and the
  fields here contain no separator or quote, so the text layer is the identity and is
  not modelled.  \<^verbatim>\<open>csv.DictReader\<close> is modelled by its rules: the first row
  names the fields, the last of two equal names wins, empty rows are skipped, a row
  shorter than the header reads \<^verbatim>\<open>None\<close> for the missing fields.  The dictionary
  of \<^verbatim>\<open>load_ships_from_csv\<close> is an association list updated by
  \<^const>\<open>AList.update\<close>, which keeps Python's insertion order.
\<close>

subsection \<open>Ship lists (\<^verbatim>\<open>utils.py\<close>)\<close>

definition ships_header :: "string list" where
  "ships_header = [''ship_id'', ''size'', ''row'', ''col'']"

text \<open>The rows of one ship: \<^verbatim>\<open>[ship_id, len(ship), row, col]\<close> per cell.\<close>

definition ship_rows :: "nat \<Rightarrow> coord list \<Rightarrow> string list list" where
  "ship_rows ship_id ship =
     map (\<lambda>(row, col). [py_str_int (int ship_id), py_str_int (int (length ship)), py_str_int row, py_str_int col])
       ship"

definition save_ships_to_csv :: "coord list list \<Rightarrow> string list list" where
  "save_ships_to_csv ships =
     ships_header # concat (map (\<lambda>(ship_id, ship). ship_rows ship_id ship) (enumerate 0 ships))"

text \<open>
  \<^verbatim>\<open>int(row[key])\<close> for a \<^verbatim>\<open>DictReader\<close> row: \<^verbatim>\<open>KeyError\<close> when the
  header has no such field, \<^verbatim>\<open>TypeError\<close> when the row is too short.
\<close>

definition csv_field :: "string list \<Rightarrow> string list \<Rightarrow> string \<Rightarrow> py_error + int" where
  "csv_field header row key =
     (case map_of (rev (zip header [0..<length header])) key of
        None \<Rightarrow> Inl KeyError
      | Some i \<Rightarrow> if i < length row then py_int (row ! i) else Inl TypeError)"

text \<open>The loop of \<^verbatim>\<open>load_ships_from_csv\<close> over the data rows.\<close>

fun load_rows ::
  "string list \<Rightarrow> (int \<times> coord set) list \<Rightarrow> string list list \<Rightarrow> py_error + (int \<times> coord set) list" where
  "load_rows header ships [] = Inr ships"
| "load_rows header ships (row # rows) =
     (case csv_field header row ''ship_id'' of
        Inl e \<Rightarrow> Inl e
      | Inr ship_id \<Rightarrow>
          (let ships1 = (if map_of ships ship_id = None then AList.update ship_id {} ships else ships) in
           case csv_field header row ''row'' of
             Inl e \<Rightarrow> Inl e
           | Inr r \<Rightarrow>
               (case csv_field header row ''col'' of
                  Inl e \<Rightarrow> Inl e
                | Inr c \<Rightarrow>
                    load_rows header
                      (AList.update ship_id (insert (r, c) (the (map_of ships1 ship_id))) ships1) rows)))"

definition load_ships_from_csv :: "string list list \<Rightarrow> py_error + coord set list" where
  "load_ships_from_csv file =
     (case file of
        [] \<Rightarrow> Inr []
      | header # rows \<Rightarrow>
          (case load_rows header [] (filter (\<lambda>r. r \<noteq> []) rows) of
             Inl e \<Rightarrow> Inl e
           | Inr ships \<Rightarrow> Inr (map (\<lambda>k. the (map_of ships k)) (sort (map fst ships)))))"

text \<open>Adding cells to the entry of a ship id, creating it when absent.\<close>

definition add_cells :: "int \<Rightarrow> coord set \<Rightarrow> (int \<times> coord set) list \<Rightarrow> (int \<times> coord set) list" where
  "add_cells k T al = AList.update k (T \<union> (case map_of al k of None \<Rightarrow> {} | Some S \<Rightarrow> S)) al"

subsection \<open>The turn log (\<^verbatim>\<open>gameplay.py\<close>)\<close>

definition log_header :: "string list" where
  "log_header = [''turn'', ''player_move'', ''player_result'', ''bot_move'', ''bot_result'',
                 ''player_ships_remaining'', ''bot_ships_remaining'']"

text \<open>\<^verbatim>\<open>dict.get(key, '')\<close> on the move record.\<close>

definition info_get :: "(string \<times> string) list \<Rightarrow> string \<Rightarrow> string" where
  "info_get info key = (case map_of info key of Some v \<Rightarrow> v | None \<Rightarrow> [])"

text \<open>
  \<^verbatim>\<open>save_state_to_csv\<close>: \<open>None\<close> is a file that does not exist yet (the
  header is written first); an empty move record writes no row.
\<close>

definition save_state_to_csv ::
  "game_state \<Rightarrow> string list list option \<Rightarrow> (string \<times> string) list \<Rightarrow> string list list" where
  "save_state_to_csv st file last_move_info =
     (let rows = (case file of None \<Rightarrow> [log_header] | Some rs \<Rightarrow> rs) in
      if last_move_info \<noteq> [] then
        rows @ [[py_str_int (turn st),
                 info_get last_move_info ''player_move'', info_get last_move_info ''player_result'',
                 info_get last_move_info ''bot_move'', info_get last_move_info ''bot_result'',
                 py_str_int (int (length (filter Not (player_destroyed st)))),
                 py_str_int (int (length (filter Not (bot_destroyed st))))]]
      else rows)"


subsection \<open>Reading back the rows of a ship\<close>

lemma ships_header_fields:
  "map_of (rev (zip ships_header [0..<length ships_header])) ''ship_id'' = Some 0"
  "map_of (rev (zip ships_header [0..<length ships_header])) ''row'' = Some 2"
  "map_of (rev (zip ships_header [0..<length ships_header])) ''col'' = Some 3"
  by (simp_all add: ships_header_def upt_rec)

lemma csv_field_ship_row:
  "csv_field ships_header [py_str_int a, py_str_int b, py_str_int r, py_str_int c] ''ship_id'' = Inr a"
  "csv_field ships_header [py_str_int a, py_str_int b, py_str_int r, py_str_int c] ''row'' = Inr r"
  "csv_field ships_header [py_str_int a, py_str_int b, py_str_int r, py_str_int c] ''col'' = Inr c"
  by (simp_all add: csv_field_def ships_header_fields py_int_py_str_int)

lemma add_cells_add: "add_cells k B (add_cells k A al) = add_cells k (A \<union> B) al"
  by (simp add: add_cells_def update_conv' Un_ac split: option.splits)

lemma load_rows_cell:
  "load_rows ships_header al ([py_str_int k, py_str_int n, py_str_int r, py_str_int c] # rest) =
   load_rows ships_header (add_cells k {(r, c)} al) rest"
  by (cases "map_of al k") (simp_all add: csv_field_ship_row add_cells_def update_conv')

lemma load_rows_cells:
  "cs \<noteq> [] \<Longrightarrow>
   load_rows ships_header al
     (map (\<lambda>(row, col). [py_str_int k, py_str_int n, py_str_int row, py_str_int col]) cs @ rest) =
   load_rows ships_header (add_cells k (set cs) al) rest"
proof (induction cs arbitrary: al rule: list_nonempty_induct)
  case (single x)
  then show ?case
    by (cases x) (simp add: load_rows_cell del: load_rows.simps)
next
  case (cons x xs)
  obtain r c where x: "x = (r, c)" by (cases x)
  have "load_rows ships_header al
          (map (\<lambda>(row, col). [py_str_int k, py_str_int n, py_str_int row, py_str_int col]) (x # xs) @ rest) =
        load_rows ships_header (add_cells k {x} al)
          (map (\<lambda>(row, col). [py_str_int k, py_str_int n, py_str_int row, py_str_int col]) xs @ rest)"
    by (simp add: x load_rows_cell del: load_rows.simps)
  also have "\<dots> = load_rows ships_header (add_cells k (set (x # xs)) al) rest"
    using cons.IH by (simp add: add_cells_add)
  finally show ?case .
qed

lemma load_rows_ship:
  "ship \<noteq> [] \<Longrightarrow>
   load_rows ships_header al (ship_rows i ship @ rest) =
   load_rows ships_header (add_cells (int i) (set ship) al) rest"
  unfolding ship_rows_def by (rule load_rows_cells)


lemma update_absent: "map_of al k = None \<Longrightarrow> AList.update k v al = al @ [(k, v)]"
  by (induction al) (auto split: if_splits)

lemma map_the_map_of_zip:
  "distinct ks \<Longrightarrow> length ks = length vs \<Longrightarrow> map (\<lambda>k. the (map_of (zip ks vs) k)) ks = vs"
  by (rule nth_equalityI) (simp_all add: map_of_zip_nth)

lemma ship_rows_nonempty: "r \<in> set (ship_rows i ship) \<Longrightarrow> r \<noteq> []"
  by (auto simp: ship_rows_def)

lemma load_rows_fleet_gen:
  "\<forall>j \<in> fst ` set al. j < int k \<Longrightarrow>
   load_rows ships_header al (concat (map (\<lambda>(i, s). ship_rows i s) (enumerate k ships))) =
   Inr (al @ map (\<lambda>(i, s). (int i, set s)) (filter (\<lambda>(i, s). s \<noteq> []) (enumerate k ships)))"
proof (induction ships arbitrary: k al)
  case Nil
  then show ?case by simp
next
  case (Cons s ss)
  show ?case
  proof (cases "s = []")
    case True
    have keys: "\<forall>j \<in> fst ` set al. j < int (Suc k)"
      using Cons.prems by auto
    show ?thesis
      using Cons.IH [OF keys] True by (simp add: ship_rows_def)
  next
    case False
    have "map_of al (int k) = None"
      using Cons.prems by (auto simp: map_of_eq_None_iff)
    then have add: "add_cells (int k) (set s) al = al @ [(int k, set s)]"
      by (simp add: add_cells_def update_absent)
    have keys: "\<forall>j \<in> fst ` set (al @ [(int k, set s)]). j < int (Suc k)"
      using Cons.prems by auto
    have "load_rows ships_header al (concat (map (\<lambda>(i, s). ship_rows i s) (enumerate k (s # ss)))) =
          load_rows ships_header (al @ [(int k, set s)])
            (concat (map (\<lambda>(i, s). ship_rows i s) (enumerate (Suc k) ss)))"
      using False load_rows_ship [of s al k] add by simp
    then show ?thesis
      using Cons.IH [OF keys] False by simp
  qed
qed

lemma map_pair_zip: "map (\<lambda>(i, s). (f i, g s)) xs = zip (map (\<lambda>(i, s). f i) xs) (map (\<lambda>(i, s). g s) xs)"
  by (induction xs) auto

lemma map_snd_filter_enumerate:
  "map snd (filter (\<lambda>(i, s). s \<noteq> []) (enumerate k xs)) = filter (\<lambda>s. s \<noteq> []) xs"
  by (induction xs arbitrary: k) auto

lemma sorted_fst_filter_enumerate:
  "sorted_wrt (<) (map (\<lambda>(i, s). int i) (filter P (enumerate k xs)))"
proof -
  have "sorted_wrt (<) (map fst (enumerate k xs))"
    by (simp add: map_fst_enumerate)
  then have "sorted_wrt (\<lambda>x y. fst x < fst y) (enumerate k xs)"
    by (simp only: sorted_wrt_map)
  then have "sorted_wrt (\<lambda>x y. fst x < fst y) (filter P (enumerate k xs))"
    by (rule sorted_wrt_filter)
  then show ?thesis
    by (simp add: sorted_wrt_map case_prod_beta)
qed

text \<open>
  Loading what \<^verbatim>\<open>save_ships_to_csv\<close> wrote gives back the cell sets of the
  non-empty ships, in fleet order.
\<close>

lemma load_save_ships:
  "load_ships_from_csv (save_ships_to_csv ships) = Inr (map set (filter (\<lambda>s. s \<noteq> []) ships))"
proof -
  let ?body = "concat (map (\<lambda>(i, s). ship_rows i s) (enumerate 0 ships))"
  let ?P = "filter (\<lambda>(i, s). s \<noteq> []) (enumerate 0 ships)"
  let ?ks = "map (\<lambda>(i, s). int i) ?P"
  let ?vs = "map (\<lambda>(i, s). set s) ?P"
  have al: "map (\<lambda>(i, s). (int i, set s)) ?P = zip ?ks ?vs"
    by (rule map_pair_zip)
  have "filter (\<lambda>r. r \<noteq> []) ?body = ?body"
    by (rule filter_id_all) (auto dest: ship_rows_nonempty)
  moreover have "load_rows ships_header [] ?body = Inr (zip ?ks ?vs)"
    using load_rows_fleet_gen [of "[]" 0 ships] al by simp
  moreover have st: "sorted_wrt (<) ?ks"
    by (rule sorted_fst_filter_enumerate)
  then have "sort ?ks = ?ks"
    using strict_sorted_iff by (intro sorted_sort_id) blast
  moreover have "map (\<lambda>k. the (map_of (zip ?ks ?vs) k)) ?ks = ?vs"
    using st by (intro map_the_map_of_zip) (simp_all add: strict_sorted_iff)
  moreover have "?vs = map set (filter (\<lambda>s. s \<noteq> []) ships)"
  proof -
    have "?vs = map set (map snd ?P)"
      by (simp add: case_prod_beta)
    then show ?thesis
      by (simp only: map_snd_filter_enumerate)
  qed
  moreover have "length ?ks = length ?vs"
    by simp
  ultimately show ?thesis
    by (simp add: load_ships_from_csv_def save_ships_to_csv_def del: map_map)
qed

lemma load_rows_isl:
  "isl (load_rows header al rows) \<longleftrightarrow>
   (\<exists>row \<in> set rows. isl (csv_field header row ''ship_id'') \<or> isl (csv_field header row ''row'') \<or>
                      isl (csv_field header row ''col''))"
proof (induction rows arbitrary: al)
  case (Cons row rows)
  then show ?case
    by (simp add: Let_def split: sum.split)
qed simp



subsection \<open>The turn log\<close>

lemma remaining_count:
  "side_inv ships destroyed hits misses \<Longrightarrow>
   length (filter Not destroyed) = card {i. i < length ships \<and> \<not> ships ! i \<subseteq> hits}"
proof -
  assume inv: "side_inv ships destroyed hits misses"
  then have "{i. i < length destroyed \<and> \<not> destroyed ! i} = {i. i < length ships \<and> \<not> ships ! i \<subseteq> hits}"
    by (auto simp: side_inv_def)
  then show ?thesis
    by (simp add: length_filter_conv_card)
qed

text \<open>
  C28: every turn-log row records the turn, the four move fields (empty when missing),
  and, for each side, the number of its ships not yet destroyed, that is not contained in
  the opponent's hits; the comment in \<^verbatim>\<open>save_state_to_csv\<close> calls these counts
  "destroyed ships", the value is the ships remaining.
\<close>

theorem turn_log_row:
  assumes "game_inv st" "info \<noteq> []"
  shows "last (save_state_to_csv st file info) =
    [py_str_int (turn st), info_get info ''player_move'', info_get info ''player_result'',
     info_get info ''bot_move'', info_get info ''bot_result'',
     py_str_int (int (card {i. i < length (player_ships st) \<and> \<not> player_ships st ! i \<subseteq> bot_hits st})),
     py_str_int (int (card {i. i < length (bot_ships st) \<and> \<not> bot_ships st ! i \<subseteq> player_hits st}))]"
proof -
  have "side_inv (player_ships st) (player_destroyed st) (bot_hits st) (bot_misses st)"
    "side_inv (bot_ships st) (bot_destroyed st) (player_hits st) (player_misses st)"
    using assms(1) by (simp_all add: game_inv_def)
  with assms(2) show ?thesis
    by (simp add: save_state_to_csv_def Let_def remaining_count)
qed

subsection \<open>Concrete behaviour\<close>

text \<open>
  C29: loading what \<^verbatim>\<open>save_ships_to_csv\<close> wrote gives back the cell sets of the
  non-empty ships only, in fleet order: a ship without cells writes no row, so it
  disappears and every later ship moves up one place, and the loaded list no longer
  matches the saved fleet by index.
\<close>

theorem ships_csv_drops_empty_ships:
  "load_ships_from_csv (save_ships_to_csv ships) = Inr (map set (filter (\<lambda>s. s \<noteq> []) ships))"
  by (rule load_save_ships)

text \<open>
  C30: loading a ship file is all-or-nothing: it raises exactly when some non-empty data
  row has a \<^verbatim>\<open>ship_id\<close>, \<^verbatim>\<open>row\<close> or \<^verbatim>\<open>col\<close> field that is missing
  from the header (\<^verbatim>\<open>KeyError\<close>), missing from the row (\<^verbatim>\<open>TypeError\<close>) or
  rejected by \<^verbatim>\<open>int()\<close> (\<^verbatim>\<open>ValueError\<close>); a partial fleet is never returned.
\<close>

theorem load_ships_raises_iff:
  "isl (load_ships_from_csv (header # rows)) \<longleftrightarrow>
   (\<exists>row \<in> set rows. row \<noteq> [] \<and>
      (isl (csv_field header row ''ship_id'') \<or> isl (csv_field header row ''row'') \<or>
       isl (csv_field header row ''col'')))"
proof -
  have "isl (load_ships_from_csv (header # rows)) \<longleftrightarrow>
        isl (load_rows header [] (filter (\<lambda>r. r \<noteq> []) rows))"
    by (simp add: load_ships_from_csv_def split: sum.split)
  also have "\<dots> \<longleftrightarrow> (\<exists>row \<in> set (filter (\<lambda>r. r \<noteq> []) rows).
      isl (csv_field header row ''ship_id'') \<or> isl (csv_field header row ''row'') \<or>
      isl (csv_field header row ''col''))"
    by (rule load_rows_isl)
  finally show ?thesis
    by auto
qed

subsection \<open>Witnesses\<close>


text \<open>C28, witness: the first log row of the example game.\<close>

theorem turn_log_row_witness:
  "game_inv example_game \<and> [(''player_move'', ''A1'')] \<noteq> [] \<and>
   last (save_state_to_csv example_game None [(''player_move'', ''A1'')]) =
     [py_str_int (turn example_game), ''A1'', [], [], [],
      py_str_int (int (card {i. i < length (player_ships example_game) \<and>
                               \<not> player_ships example_game ! i \<subseteq> bot_hits example_game})),
      py_str_int (int (card {i. i < length (bot_ships example_game) \<and>
                               \<not> bot_ships example_game ! i \<subseteq> player_hits example_game}))]"
  using turn_log_row [OF example_game_inv, of "[(''player_move'', ''A1'')]" None]
  by (simp add: example_game_inv info_get_def)

text \<open>C30, witness: a row whose \<^verbatim>\<open>row\<close> field is not a number.\<close>

theorem load_ships_raises_iff_witness:
  "isl (load_ships_from_csv [ships_header, [''0'', ''1'', ''x'', ''0'']])"
proof -
  have "isl (csv_field ships_header [''0'', ''1'', ''x'', ''0''] ''row'')"
    by code_simp
  then show ?thesis
    using load_ships_raises_iff [of ships_header "[[''0'', ''1'', ''x'', ''0'']]"] by simp
qed

end
