(* ===== verification/Rng.thy ===== *)
theory Rng
  imports Prelude
begin

text \<open>
  The random source of the program, Python's \<^verbatim>\<open>random\<close> module as the code uses
  it: \<^verbatim>\<open>randint\<close>, \<^verbatim>\<open>choice\<close> and \<^verbatim>\<open>shuffle\<close>.  All three reduce
  to CPython's \<^verbatim>\<open>_randbelow(n)\<close>, a draw from \<open>[0, n)\<close>.  The model is a
  source of raw draws, a function from the index of a draw to a natural, with the index
  of the next draw; \<open>randbelow n\<close> takes that draw modulo \<open>n\<close> and advances the
  index.  Every sequence of draws a run can make is some source, so a theorem over all
  sources holds for every outcome of the generator; the distribution is not modelled.  \<open>shuffle\<close> is CPython's Fisher-Yates loop
  (\<^verbatim>\<open>for i in reversed(range(1, len(x))): j = randbelow(i + 1); swap x[i], x[j]\<close>).
\<close>

record rng =
  draws :: "nat \<Rightarrow> nat"
  next_draw :: nat

definition randbelow :: "nat \<Rightarrow> rng \<Rightarrow> nat \<times> rng" where
  "randbelow n r = (draws r (next_draw r) mod n, r\<lparr>next_draw := Suc (next_draw r)\<rparr>)"

definition randint :: "int \<Rightarrow> int \<Rightarrow> rng \<Rightarrow> int \<times> rng" where
  "randint a b r = (let (k, r') = randbelow (nat (b - a + 1)) r in (a + int k, r'))"

definition choice :: "'a list \<Rightarrow> rng \<Rightarrow> 'a \<times> rng" where
  "choice seq r = (let (k, r') = randbelow (length seq) r in (seq ! k, r'))"

fun shuffle_from :: "nat \<Rightarrow> 'a list \<Rightarrow> rng \<Rightarrow> 'a list \<times> rng" where
  "shuffle_from 0 xs r = (xs, r)"
| "shuffle_from (Suc i) xs r =
     (let (j, r') = randbelow (Suc i + 1) r
      in shuffle_from i (xs[Suc i := xs ! j, j := xs ! Suc i]) r')"

definition shuffle :: "'a list \<Rightarrow> rng \<Rightarrow> 'a list \<times> rng" where
  "shuffle xs r = shuffle_from (length xs - 1) xs r"

lemma randbelow_less: "0 < n \<Longrightarrow> fst (randbelow n r) < n"
  by (simp add: randbelow_def)

lemma randint_range: "a \<le> b \<Longrightarrow> a \<le> fst (randint a b r) \<and> fst (randint a b r) \<le> b"
proof -
  assume ab: "a \<le> b"
  have e: "int (draws r (next_draw r) mod nat (b - a + 1)) = int (draws r (next_draw r)) mod (b - a + 1)"
    using ab by (simp add: of_nat_mod)
  have "int (draws r (next_draw r)) mod (b - a + 1) < b - a + 1" using ab by (intro pos_mod_bound) simp
  then show ?thesis using e ab by (simp add: randint_def randbelow_def)
qed

text \<open>Every value of the range is drawn by some random stream.\<close>

lemma randint_onto:
  assumes "a \<le> v" "v \<le> b"
  shows "fst (randint a b \<lparr>draws = (\<lambda>_. nat (v - a)), next_draw = k\<rparr>) = v"
proof -
  have "nat (v - a) < nat (b - a + 1)" using assms by simp
  then show ?thesis using assms by (simp add: randint_def randbelow_def)
qed

lemma mset_shuffle_from: "i < length xs \<Longrightarrow> mset (fst (shuffle_from i xs r)) = mset xs"
proof (induction i arbitrary: xs r)
  case 0
  then show ?case by simp
next
  case (Suc i)
  obtain j r' where jr: "randbelow (Suc i + 1) r = (j, r')" by (cases "randbelow (Suc i + 1) r")
  have "j < Suc i + 1" using randbelow_less [of "Suc i + 1" r] jr by simp
  then have j: "j < length xs" using Suc.prems by simp
  let ?ys = "xs[Suc i := xs ! j, j := xs ! Suc i]"
  have "mset ?ys = mset xs" using j Suc.prems by simp
  moreover have "mset (fst (shuffle_from i ?ys r')) = mset ?ys"
    using Suc.IH [of ?ys r'] Suc.prems by simp
  ultimately show ?case using jr by simp
qed

theorem mset_shuffle: "mset (fst (shuffle xs r)) = mset xs"
proof (cases xs)
  case Nil
  then show ?thesis by (simp add: shuffle_def)
next
  case (Cons y ys)
  then show ?thesis by (simp add: shuffle_def mset_shuffle_from)
qed

lemma set_shuffle: "set (fst (shuffle xs r)) = set xs"
  by (metis mset_shuffle set_mset_mset)

end
