(* ===== verification/BotAI.thy ===== *)
theory BotAI
  imports GameState Rng
begin

text \<open>
  The opponent AI of \<^verbatim>\<open>src/src/gameplay.py\<close>: \<^verbatim>\<open>get_bot_move\<close> with its two
  strategies \<^verbatim>\<open>_get_smart_target_move\<close> (targeting around the hits on the current
  ship) and \<^verbatim>\<open>_get_random_move\<close> (1000 random draws, then a row-major scan, then
  the exception), and \<^verbatim>\<open>update_bot_state\<close>, the hunt/target state machine.  The
  random module is the explicit source of \<open>Rng\<close>, threaded through the calls in
  the order the code draws.  The lemmas show that every move the bot returns is an
  in-bounds untried cell, that it raises exactly when the board is exhausted, how it
  extends a run of hits, and that the mode flag and the hit list refine the tagged
  variant Hunting | Targeting (non-empty hits) the specification asks for.
\<close>

definition extension_candidates :: "coord list \<Rightarrow> coord list" where
  "extension_candidates targets =
     (let sorted_targets = sort targets;
          rows = map fst sorted_targets; cols = map snd sorted_targets in
      if length (remdups rows) = 1
      then [(rows ! 0, Min (set cols) - 1), (rows ! 0, Max (set cols) + 1)]
      else [(Min (set rows) - 1, cols ! 0), (Max (set rows) + 1, cols ! 0)])"

definition get_smart_target_move :: "game_state \<Rightarrow> rng \<Rightarrow> coord option \<times> rng" where
  "get_smart_target_move st r =
     (if length (bot_current_target st) = 1 then
        let (row, col) = bot_current_target st ! 0;
            (candidates, r') = shuffle (get_adjacent_cells row col False) r
        in (find (\<lambda>cell. is_valid_move cell False st) candidates, r')
      else if 2 \<le> length (bot_current_target st) then
        let (candidates, r') = shuffle (extension_candidates (bot_current_target st)) r
        in (find (\<lambda>cell. in_bounds cell \<and> is_valid_move cell False st) candidates, r')
      else (None, r))"

fun random_attempts :: "nat \<Rightarrow> game_state \<Rightarrow> rng \<Rightarrow> coord option \<times> rng" where
  "random_attempts 0 st r = (None, r)"
| "random_attempts (Suc n) st r =
     (let (row, r1) = randint 0 (BOARD_SIZE - 1) r;
          (col, r2) = randint 0 (BOARD_SIZE - 1) r1
      in if is_valid_move (row, col) False st then (Some (row, col), r2)
         else random_attempts n st r2)"

definition board_cells :: "coord list" where
  "board_cells = concat (map (\<lambda>row. map (\<lambda>col. (row, col)) [0..BOARD_SIZE - 1]) [0..BOARD_SIZE - 1])"

definition get_random_move :: "game_state \<Rightarrow> rng \<Rightarrow> py_error + (coord \<times> rng)" where
  "get_random_move st r =
     (case random_attempts 1000 st r of
        (Some cell, r') \<Rightarrow> Inr (cell, r')
      | (None, r') \<Rightarrow>
          (case find (\<lambda>cell. is_valid_move cell False st) board_cells of
             Some cell \<Rightarrow> Inr (cell, r')
           | None \<Rightarrow> Inl NoValidMoves))"

definition get_bot_move :: "game_state \<Rightarrow> rng \<Rightarrow> py_error + (coord \<times> rng)" where
  "get_bot_move st r =
     (if bot_target_mode st \<and> bot_current_target st \<noteq> [] then
        (case get_smart_target_move st r of
           (Some move, r') \<Rightarrow> Inr (move, r')
         | (None, r') \<Rightarrow> get_random_move st r')
      else get_random_move st r)"

definition update_bot_state :: "coord \<Rightarrow> bool \<Rightarrow> bool \<Rightarrow> game_state \<Rightarrow> game_state" where
  "update_bot_state coord is_hit ship_destroyed st =
     (if is_hit then
        let st1 = st\<lparr>bot_current_target := bot_current_target st @ [coord], bot_target_mode := True\<rparr> in
        if ship_destroyed
        then st1\<lparr>bot_target_mode := False, bot_current_target := [], bot_direction := None\<rparr>
        else st1
      else if bot_current_target st = [] then st\<lparr>bot_target_mode := False\<rparr>
      else st)"

subsection \<open>The specification's targeting state machine\<close>

datatype ai_mode = Hunting | Targeting "coord list"

definition ai_abs :: "game_state \<Rightarrow> ai_mode" where
  "ai_abs st = (if bot_target_mode st then Targeting (bot_current_target st) else Hunting)"

fun ai_hits :: "ai_mode \<Rightarrow> coord list" where
  "ai_hits Hunting = []"
| "ai_hits (Targeting hs) = hs"

definition ai_step :: "ai_mode \<Rightarrow> coord \<Rightarrow> bool \<Rightarrow> bool \<Rightarrow> ai_mode" where
  "ai_step m coord is_hit ship_destroyed =
     (if is_hit then (if ship_destroyed then Hunting else Targeting (ai_hits m @ [coord])) else m)"

definition ai_inv :: "game_state \<Rightarrow> bool" where
  "ai_inv st \<longleftrightarrow> (bot_target_mode st \<longleftrightarrow> bot_current_target st \<noteq> [])"

definition ai_mode_ok :: "ai_mode \<Rightarrow> bool" where
  "ai_mode_ok m \<longleftrightarrow> m \<noteq> Targeting []"

text \<open>
  Test fixtures: a random source whose every draw is 0, and the example game of
  \<open>GameState\<close> with the bot targeting two hits in row 3, or one hit at (5,5).
\<close>

definition zero_draws :: rng where
  "zero_draws = \<lparr>draws = (\<lambda>_. 0), next_draw = 0\<rparr>"

definition example_targeting :: game_state where
  "example_targeting = example_game\<lparr>bot_target_mode := True, bot_current_target := [(3, 4), (3, 6)]\<rparr>"

definition example_single_hit :: game_state where
  "example_single_hit = example_game\<lparr>bot_target_mode := True, bot_current_target := [(5, 5)]\<rparr>"

subsection \<open>Moves are in bounds and untried\<close>

lemma board_cells_in_bounds: "c \<in> set board_cells \<Longrightarrow> in_bounds c"
  by (auto simp: board_cells_def in_bounds_def)

lemma in_bounds_board_cells: "in_bounds c \<Longrightarrow> c \<in> set board_cells"
  by (cases c) (auto simp: board_cells_def in_bounds_def image_iff)

lemma random_attempts_Some:
  "random_attempts n st r = (Some c, r') \<Longrightarrow> in_bounds c \<and> is_valid_move c False st"
proof (induction n st r rule: random_attempts.induct)
  case (1 st r)
  then show ?case by simp
next
  case (2 n st r)
  obtain row r1 where d1: "randint 0 (BOARD_SIZE - 1) r = (row, r1)" by (cases "randint 0 (BOARD_SIZE - 1) r")
  obtain col r2 where d2: "randint 0 (BOARD_SIZE - 1) r1 = (col, r2)" by (cases "randint 0 (BOARD_SIZE - 1) r1")
  have "in_bounds (row, col)"
    using randint_range [of 0 "BOARD_SIZE - 1" r] randint_range [of 0 "BOARD_SIZE - 1" r1] d1 d2
    by (simp add: in_bounds_def BOARD_SIZE_def)
  with 2 d1 d2 show ?case by (auto split: if_splits)
qed

lemma random_attempts_None:
  assumes "\<forall>c. in_bounds c \<longrightarrow> \<not> is_valid_move c False st"
  shows "fst (random_attempts n st r) = None"
proof (rule ccontr)
  assume "fst (random_attempts n st r) \<noteq> None"
  then obtain c where "random_attempts n st r = (Some c, snd (random_attempts n st r))"
    by (metis option.exhaust prod.collapse)
  then have "in_bounds c \<and> is_valid_move c False st" by (rule random_attempts_Some)
  with assms show False by blast
qed

lemma smart_target_Some:
  assumes "get_smart_target_move st r = (Some c, r')"
  shows "in_bounds c \<and> is_valid_move c False st"
proof (cases "length (bot_current_target st) = 1")
  case True
  obtain row col where rc: "bot_current_target st ! 0 = (row, col)" by (cases "bot_current_target st ! 0")
  obtain cs r2 where sh: "shuffle (get_adjacent_cells row col False) r = (cs, r2)"
    by (cases "shuffle (get_adjacent_cells row col False) r")
  from assms True rc sh have f: "find (\<lambda>cell. is_valid_move cell False st) cs = Some c"
    by (simp add: get_smart_target_move_def)
  have "set cs = set (get_adjacent_cells row col False)"
    using set_shuffle [of "get_adjacent_cells row col False" r] sh by simp
  with find_Some_D [OF f] have "c \<in> set (get_adjacent_cells row col False)"
    and v: "is_valid_move c False st" by simp_all
  then show ?thesis by (simp add: adjacent_in_bounds)
next
  case False
  obtain cs r2 where sh: "shuffle (extension_candidates (bot_current_target st)) r = (cs, r2)"
    by (cases "shuffle (extension_candidates (bot_current_target st)) r")
  from assms False sh have "find (\<lambda>cell. in_bounds cell \<and> is_valid_move cell False st) cs = Some c"
    by (auto simp: get_smart_target_move_def split: if_splits)
  from find_Some_D [OF this] show ?thesis by simp
qed

lemma random_move_Inr:
  assumes "get_random_move st r = Inr (c, r')"
  shows "in_bounds c \<and> is_valid_move c False st"
proof (cases "random_attempts 1000 st r")
  case (Pair m r1)
  show ?thesis
  proof (cases m)
    case None
    with assms Pair have "find (\<lambda>cell. is_valid_move cell False st) board_cells = Some c"
      by (auto simp: get_random_move_def split: option.splits)
    from find_Some_D [OF this] have "c \<in> set board_cells" and "is_valid_move c False st"
      by simp_all
    then show ?thesis by (simp add: board_cells_in_bounds)
  next
    case (Some c')
    with assms Pair have "random_attempts 1000 st r = (Some c, r1)"
      by (simp add: get_random_move_def)
    then show ?thesis by (rule random_attempts_Some)
  qed
qed

lemma random_move_Inl:
  "get_random_move st r = Inl e \<longleftrightarrow> e = NoValidMoves \<and> (\<forall>c. in_bounds c \<longrightarrow> \<not> is_valid_move c False st)"
proof
  assume inl: "get_random_move st r = Inl e"
  then have none: "fst (random_attempts 1000 st r) = None"
    and scan: "find (\<lambda>cell. is_valid_move cell False st) board_cells = None" and e: "e = NoValidMoves"
    by (auto simp: get_random_move_def split: prod.splits option.splits)
  have "\<forall>c. in_bounds c \<longrightarrow> \<not> is_valid_move c False st"
    using scan in_bounds_board_cells by (auto simp: find_None_iff)
  with e show "e = NoValidMoves \<and> (\<forall>c. in_bounds c \<longrightarrow> \<not> is_valid_move c False st)" ..
next
  assume "e = NoValidMoves \<and> (\<forall>c. in_bounds c \<longrightarrow> \<not> is_valid_move c False st)"
  then have e: "e = NoValidMoves" and ex: "\<forall>c. in_bounds c \<longrightarrow> \<not> is_valid_move c False st" by auto
  have "fst (random_attempts 1000 st r) = None" using ex by (rule random_attempts_None)
  moreover have "find (\<lambda>cell. is_valid_move cell False st) board_cells = None"
    using ex board_cells_in_bounds by (auto simp: find_None_iff)
  ultimately show "get_random_move st r = Inl e"
    using e by (auto simp: get_random_move_def split: prod.splits)
qed

lemma get_bot_move_ok:
  assumes "get_bot_move st r = Inr (c, r')"
  shows "in_bounds c \<and> is_valid_move c False st"
proof (cases "bot_target_mode st \<and> bot_current_target st \<noteq> []")
  case True
  obtain m r1 where sm: "get_smart_target_move st r = (m, r1)" by (cases "get_smart_target_move st r")
  show ?thesis
  proof (cases m)
    case None
    with assms True sm have "get_random_move st r1 = Inr (c, r')" by (simp add: get_bot_move_def)
    then show ?thesis by (rule random_move_Inr)
  next
    case (Some c')
    with assms True sm have "get_smart_target_move st r = (Some c, r1)" by (simp add: get_bot_move_def)
    then show ?thesis by (rule smart_target_Some)
  qed
next
  case False
  with assms have "get_random_move st r = Inr (c, r')" by (simp add: get_bot_move_def)
  then show ?thesis by (rule random_move_Inr)
qed

text \<open>
  C9: every move \<^verbatim>\<open>get_bot_move\<close> returns, from either strategy, is an in-bounds
  cell the bot has not tried yet.
\<close>

theorem get_bot_move_valid:
  assumes "get_bot_move st r = Inr (c, r')"
  shows "in_bounds c \<and> is_valid_move c False st"
  using assms by (rule get_bot_move_ok)

text \<open>
  C10: \<^verbatim>\<open>get_bot_move\<close> raises, and then only its \<^verbatim>\<open>No valid moves available\<close>
  exception, exactly when every cell of the board has been tried by the bot; whenever an
  untried cell remains it returns a move, whatever the random draws.
\<close>

theorem get_bot_move_raises_iff:
  "get_bot_move st r = Inl e \<longleftrightarrow> e = NoValidMoves \<and> (\<forall>c. in_bounds c \<longrightarrow> \<not> is_valid_move c False st)"
proof (cases "bot_target_mode st \<and> bot_current_target st \<noteq> []")
  case True
  obtain m r1 where sm: "get_smart_target_move st r = (m, r1)" by (cases "get_smart_target_move st r")
  show ?thesis
  proof (cases m)
    case None
    with True sm random_move_Inl [of st r1 e] show ?thesis by (simp add: get_bot_move_def)
  next
    case (Some c')
    then have "\<exists>c. in_bounds c \<and> is_valid_move c False st"
      using smart_target_Some [of st r c' r1] sm by blast
    with True sm Some show ?thesis by (auto simp: get_bot_move_def)
  qed
next
  case False
  then have "get_bot_move st r = get_random_move st r"
    unfolding get_bot_move_def by (rule if_not_P)
  with random_move_Inl [of st r e] show ?thesis by simp
qed

subsection \<open>Targeting\<close>

lemma remdups_const_length:
  assumes "xs \<noteq> []" "\<forall>x \<in> set xs. x = a"
  shows "length (remdups xs) = 1"
proof -
  have "set xs = {a}" using assms by (cases xs) auto
  then show ?thesis by (simp add: length_remdups_card_conv)
qed

lemma extension_candidates_row:
  assumes "ts \<noteq> []" "\<forall>p \<in> set ts. fst p = row"
  shows "extension_candidates ts = [(row, Min (snd ` set ts) - 1), (row, Max (snd ` set ts) + 1)]"
proof -
  have len: "0 < length (sort ts)" using assms(1) by (metis length_greater_0_conv length_sort)
  then have ne: "map fst (sort ts) \<noteq> []" by (metis length_greater_0_conv length_map)
  have h0: "sort ts ! 0 \<in> set ts" using len by (metis nth_mem set_sort)
  have "\<forall>x \<in> set (map fst (sort ts)). x = row" using assms(2) by simp
  then have "length (remdups (map fst (sort ts))) = 1" by (rule remdups_const_length [OF ne])
  moreover have "map fst (sort ts) ! 0 = row" using assms(2) len h0 by simp
  ultimately show ?thesis by (simp add: extension_candidates_def Let_def)
qed

lemma shuffle_find_in:
  assumes "x \<in> set xs" "P x"
  shows "\<exists>y. find P (fst (shuffle xs r)) = Some y \<and> y \<in> set xs"
proof -
  have "x \<in> set (fst (shuffle xs r))" using assms(1) by (simp add: set_shuffle)
  then have "\<exists>y. find P (fst (shuffle xs r)) = Some y" using assms(2) by (rule find_exists_Some)
  then obtain y where y: "find P (fst (shuffle xs r)) = Some y" ..
  have "y \<in> set (fst (shuffle xs r))" using find_Some_D [OF y] by simp
  then have "y \<in> set xs" by (simp add: set_shuffle)
  with y show ?thesis by blast
qed

text \<open>
  C11: with two or more hits in one row, the bot extends the run: whenever one of the two
  cells just beyond the leftmost and rightmost hit is on the board and untried, its move
  is one of those two cells.
\<close>

theorem get_bot_move_extends_row:
  assumes mode: "bot_target_mode st" and len: "2 \<le> length (bot_current_target st)"
    and row: "\<forall>p \<in> set (bot_current_target st). fst p = row"
    and ext: "\<exists>c \<in> set [(row, Min (snd ` set (bot_current_target st)) - 1),
                         (row, Max (snd ` set (bot_current_target st)) + 1)].
                in_bounds c \<and> is_valid_move c False st"
  shows "\<exists>c r'. get_bot_move st r = Inr (c, r') \<and>
           c \<in> set [(row, Min (snd ` set (bot_current_target st)) - 1),
                    (row, Max (snd ` set (bot_current_target st)) + 1)]"
proof -
  let ?ts = "bot_current_target st"
  have ne: "?ts \<noteq> []" using len by auto
  have cand: "extension_candidates ?ts = [(row, Min (snd ` set ?ts) - 1), (row, Max (snd ` set ?ts) + 1)]"
    using ne row by (rule extension_candidates_row)
  from ext obtain x where x: "x \<in> set (extension_candidates ?ts)"
    and px: "in_bounds x \<and> is_valid_move x False st"
    unfolding cand by blast
  obtain c where c: "find (\<lambda>cell. in_bounds cell \<and> is_valid_move cell False st)
      (fst (shuffle (extension_candidates ?ts) r)) = Some c"
    and cin: "c \<in> set (extension_candidates ?ts)"
    using shuffle_find_in [OF x, of "\<lambda>cell. in_bounds cell \<and> is_valid_move cell False st" r] px
    by blast
  obtain cs r1 where sh: "shuffle (extension_candidates ?ts) r = (cs, r1)"
    by (cases "shuffle (extension_candidates ?ts) r")
  have "\<not> length ?ts = 1" using len by simp
  then have "get_smart_target_move st r = (Some c, r1)"
    using len c sh by (simp add: get_smart_target_move_def)
  then have "get_bot_move st r = Inr (c, r1)"
    using mode ne by (simp add: get_bot_move_def)
  with cin cand show ?thesis by auto
qed

text \<open>
  C12: with a single hit, the bot fires at an orthogonal neighbour of it whenever one of
  them is on the board and untried.
\<close>

theorem get_bot_move_single_hit:
  assumes mode: "bot_target_mode st" and one: "bot_current_target st = [h]"
    and ex: "\<exists>c. in_bounds c \<and> neighbour4 h c \<and> is_valid_move c False st"
  shows "\<exists>c r'. get_bot_move st r = Inr (c, r') \<and> neighbour4 h c"
proof -
  let ?adj = "get_adjacent_cells (fst h) (snd h) False"
  have adj: "set ?adj = {p. in_bounds p \<and> neighbour4 h p}"
    using set_adjacent4 [of "fst h" "snd h"] by simp
  from ex obtain x where x: "x \<in> set ?adj" and vx: "is_valid_move x False st"
    unfolding adj by blast
  obtain c where c: "find (\<lambda>cell. is_valid_move cell False st) (fst (shuffle ?adj r)) = Some c"
    and cin: "c \<in> set ?adj"
    using shuffle_find_in [OF x, of "\<lambda>cell. is_valid_move cell False st" r] vx by blast
  obtain cs r1 where sh: "shuffle ?adj r = (cs, r1)" by (cases "shuffle ?adj r")
  have "get_smart_target_move st r = (Some c, r1)"
    using one c sh by (cases h) (simp add: get_smart_target_move_def)
  then have "get_bot_move st r = Inr (c, r1)"
    using mode one by (simp add: get_bot_move_def)
  moreover have "neighbour4 h c" using cin adj by simp
  ultimately show ?thesis by blast
qed

subsection \<open>The hunt/target state machine\<close>

text \<open>
  C13: under the invariant that the mode flag is set exactly when the hit list is
  non-empty, \<^verbatim>\<open>update_bot_state\<close> keeps the invariant and implements the
  specification's transition on the tagged variant: a hit that sinks returns to Hunting,
  another hit appends to the Targeting list, a miss leaves the mode as it is.
\<close>

theorem update_bot_state_refines:
  assumes "ai_inv st"
  shows "ai_inv (update_bot_state c is_hit ship_destroyed st) \<and>
         ai_abs (update_bot_state c is_hit ship_destroyed st) = ai_step (ai_abs st) c is_hit ship_destroyed"
  using assms
  by (cases is_hit; cases ship_destroyed)
     (auto simp: ai_inv_def ai_abs_def ai_step_def update_bot_state_def Let_def)

lemma ai_step_ok: "ai_mode_ok m \<Longrightarrow> ai_mode_ok (ai_step m c is_hit ship_destroyed)"
  by (cases m) (auto simp: ai_mode_ok_def ai_step_def)

lemma ai_inv_abs_ok: "ai_inv st \<Longrightarrow> ai_mode_ok (ai_abs st)"
  by (simp add: ai_inv_def ai_abs_def ai_mode_ok_def)

lemma ai_inv_init: "ai_inv (init_game_state ps bs)"
  by (simp add: ai_inv_def init_game_state_def)

lemma ai_inv_process_move: "ai_inv st \<Longrightarrow> ai_inv (snd (process_move c p st))"
  by (simp add: ai_inv_def process_move_def mark_surrounding_as_miss_def Let_def split: option.splits)


subsection \<open>Concrete checks\<close>

lemma extension_candidates_example: "extension_candidates [(3, 4), (3, 6)] = [(3, 3), (3, 7)]"
  by code_simp

text \<open>
  C26: two remembered hits that share neither a row nor a column (hits on two ships, the
  second found by the random fallback while targeting) are treated as a vertical run in
  the column of the smaller hit: the code does not check that the hits share a column,
  and one of the two extension cells it proposes is orthogonally adjacent to neither hit.
\<close>

theorem extension_candidates_mixed:
  assumes "sort targets = [(r1, c1), (r2, c2)]" and "r1 < r2" and "c1 \<noteq> c2"
  shows "extension_candidates targets = [(r1 - 1, c1), (r2 + 1, c1)] \<and>
         \<not> neighbour4 (r2 + 1, c1) (r1, c1) \<and> \<not> neighbour4 (r2 + 1, c1) (r2, c2)"
proof -
  have "remdups [r1, r2] = [r1, r2]" and "Min {r1, r2} = r1" and "Max {r1, r2} = r2"
    using assms(2) by auto
  then have "extension_candidates targets = [(r1 - 1, c1), (r2 + 1, c1)]"
    using assms(1) by (simp add: extension_candidates_def Let_def)
  moreover have "\<not> neighbour4 (r2 + 1, c1) (r1, c1)" "\<not> neighbour4 (r2 + 1, c1) (r2, c2)"
    using assms(2,3) by (auto simp: neighbour4_def)
  ultimately show ?thesis by simp
qed

subsection \<open>Witnesses\<close>

lemma ev0: "(case get_bot_move example_game zero_draws of Inr (c, _) \<Rightarrow> Some c | Inl _ \<Rightarrow> None) = Some (0, 0)"
  unfolding example_game_def zero_draws_def by code_simp

lemma ev: "\<exists>r'. get_bot_move example_game zero_draws = Inr ((0, 0), r')"
  using ev0 by (auto split: sum.splits)

text \<open>C9, witness: the bot's first move in the example game, with all draws 0.\<close>

theorem get_bot_move_valid_witness: "in_bounds (0, 0) \<and> is_valid_move (0, 0) False example_game"
proof -
  from ev obtain r' where "get_bot_move example_game zero_draws = Inr ((0, 0), r')" ..
  then show ?thesis by (rule get_bot_move_valid)
qed

text \<open>C10, witness: the bot does not raise in the example game.\<close>

theorem get_bot_move_raises_iff_witness: "get_bot_move example_game zero_draws \<noteq> Inl NoValidMoves"
proof -
  have "in_bounds (0, 0) \<and> is_valid_move (0, 0) False example_game"
    by (simp add: in_bounds_def BOARD_SIZE_def is_valid_move_def example_game_def init_game_state_def)
  then show ?thesis using get_bot_move_raises_iff [of example_game zero_draws NoValidMoves] by blast
qed

text \<open>C11, witness: the specification's example, hits at (3,4) and (3,6).\<close>

theorem get_bot_move_extends_row_witness:
  "\<exists>c r'. get_bot_move example_targeting zero_draws = Inr (c, r') \<and> c \<in> {(3, 3), (3, 7)}"
proof -
  have "\<exists>c r'. get_bot_move example_targeting zero_draws = Inr (c, r') \<and>
      c \<in> set [(3, Min (snd ` set (bot_current_target example_targeting)) - 1),
               (3, Max (snd ` set (bot_current_target example_targeting)) + 1)]"
    by (rule get_bot_move_extends_row)
      (simp_all add: example_targeting_def example_game_def init_game_state_def in_bounds_def
        BOARD_SIZE_def is_valid_move_def)
  then show ?thesis by (simp add: example_targeting_def)
qed

text \<open>C12, witness: a single hit at (5,5).\<close>

theorem get_bot_move_single_hit_witness:
  "\<exists>c r'. get_bot_move example_single_hit zero_draws = Inr (c, r') \<and> neighbour4 (5, 5) c"
proof -
  have "in_bounds (5, 6) \<and> neighbour4 (5, 5) (5, 6) \<and> is_valid_move (5, 6) False example_single_hit"
    by (simp add: example_single_hit_def example_game_def init_game_state_def in_bounds_def
      BOARD_SIZE_def is_valid_move_def neighbour4_def)
  then have "\<exists>c. in_bounds c \<and> neighbour4 (5, 5) c \<and> is_valid_move c False example_single_hit" ..
  then show ?thesis
    using get_bot_move_single_hit [of example_single_hit "(5, 5)" zero_draws]
    by (simp add: example_single_hit_def)
qed

text \<open>C13, witness: a first hit moves the example game from Hunting to Targeting.\<close>

theorem update_bot_state_refines_witness:
  "ai_abs (update_bot_state (5, 5) True False example_game) = Targeting [(5, 5)]"
proof -
  have "ai_inv example_game" by (simp add: ai_inv_def example_game_def init_game_state_def)
  from update_bot_state_refines [OF this, of "(5, 5)" True False] show ?thesis
    by (simp add: ai_step_def ai_abs_def example_game_def init_game_state_def)
qed
text \<open>C26, witness: hits (5,6) and (3,4), remembered in that order.\<close>

theorem extension_candidates_mixed_witness:
  "extension_candidates [(5, 6), (3, 4)] = [(2, 4), (6, 4)] \<and>
   \<not> neighbour4 (6, 4) (3, 4) \<and> \<not> neighbour4 (6, 4) (5, 6)"
proof -
  have "sort [(5 :: int, 6 :: int), (3, 4)] = [(3, 4), (5, 6)]" by code_simp
  from extension_candidates_mixed [OF this] show ?thesis by simp
qed

end
