(* ===== verification/Generator.thy ===== *)
theory Generator
  imports Placement Rng
begin

text \<open>
  The bot's fleet generator, \<^verbatim>\<open>generate_bot_ships\<close> of
  \<^verbatim>\<open>src/src/bot_generation.py\<close>, over the random stream of \<open>Rng\<close>.  One
  attempt draws an orientation with \<^verbatim>\<open>random.choice\<close> and an anchor with two
  \<^verbatim>\<open>random.randint\<close> calls (\<open>draw_ship\<close>); up to 1000 attempts place one
  ship (\<open>place_attempts\<close>); the sizes of \<^verbatim>\<open>SHIP_SIZES\<close> are placed in order
  (\<open>place_fleet\<close>); and a failed ship restarts the whole generation by recursion
  (\<open>generate_bot_ships\<close>, a \<open>partial_function (option)\<close>, because nothing
  bounds the restarts: the local \<^verbatim>\<open>max_attempts = 10000\<close> is never read).
  The lemmas show that every fleet it returns is valid, that a round that places every
  ship returns at once, and that on a stream whose draws are all zero it never returns.
\<close>

definition draw_ship :: "nat \<Rightarrow> rng \<Rightarrow> coord list \<times> rng" where
  "draw_ship ship_size r0 =
     (let (horizontal, r1) = choice [True, False] r0 in
      if horizontal then
        (let (row, r2) = randint 0 (BOARD_SIZE - 1) r1;
             (col, r3) = randint 0 (BOARD_SIZE - int ship_size) r2
         in (map (\<lambda>i. (row, col + int i)) [0..<ship_size], r3))
      else
        (let (row, r2) = randint 0 (BOARD_SIZE - int ship_size) r1;
             (col, r3) = randint 0 (BOARD_SIZE - 1) r2
         in (map (\<lambda>i. (row + int i, col)) [0..<ship_size], r3)))"

text \<open>
  The inner \<^verbatim>\<open>for _ in range(1000)\<close> loop: \<open>k\<close> attempts left; a rejected
  candidate (overlap with \<^verbatim>\<open>placed_cells\<close> or touching a placed ship) is a
  \<^verbatim>\<open>continue\<close>, an accepted one breaks out with the ship.
\<close>

fun place_attempts ::
  "nat \<Rightarrow> nat \<Rightarrow> coord list list \<Rightarrow> coord set \<Rightarrow> rng \<Rightarrow> coord list option \<times> rng" where
  "place_attempts 0 ship_size ships placed_cells r = (None, r)"
| "place_attempts (Suc k) ship_size ships placed_cells r =
     (let (coords, r') = draw_ship ship_size r; ship_set = set coords in
      if ship_set \<inter> placed_cells \<noteq> {} \<or> ships_touch ship_set (map set ships)
      then place_attempts k ship_size ships placed_cells r'
      else (Some coords, r'))"

text \<open>The outer loop over the sizes; \<open>None\<close> is \<^verbatim>\<open>not ship_placed\<close>.\<close>

fun place_fleet ::
  "nat list \<Rightarrow> coord list list \<Rightarrow> coord set \<Rightarrow> rng \<Rightarrow> coord list list option \<times> rng" where
  "place_fleet [] ships placed_cells r = (Some ships, r)"
| "place_fleet (ship_size # sizes) ships placed_cells r =
     (case place_attempts 1000 ship_size ships placed_cells r of
        (None, r') \<Rightarrow> (None, r')
      | (Some coords, r') \<Rightarrow> place_fleet sizes (ships @ [coords]) (placed_cells \<union> set coords) r')"

text \<open>
  \<^verbatim>\<open>return generate_bot_ships()\<close> after a failed ship: a fresh start that keeps
  the state of the random generator.  \<open>None\<close> is a generation that never returns.
\<close>

partial_function (option) generate_bot_ships :: "rng \<Rightarrow> (coord list list \<times> rng) option" where
  "generate_bot_ships r =
     (case place_fleet SHIP_SIZES [] {} r of
        (Some ships, r') \<Rightarrow> Some (ships, r')
      | (None, r') \<Rightarrow> generate_bot_ships r')"

subsection \<open>Fixtures\<close>

text \<open>
  Draws for ten accepted first attempts: each attempt reads the orientation (0 is
  horizontal), the row and the column.  The fleet lies on rows 1, 3, 5, 7 and 9.
\<close>

definition example_draws :: "nat list" where
  "example_draws = [0, 0, 0,  0, 2, 0,  0, 4, 0,  0, 6, 0,  0, 8, 0,
                    0, 0, 5,  0, 2, 5,  0, 4, 5,  0, 6, 5,  0, 8, 5]"

definition example_stream :: rng where
  "example_stream = \<lparr>draws = (\<lambda>n. if n < length example_draws then example_draws ! n else 0), next_draw = 0\<rparr>"

definition example_fleet :: "coord list list" where
  "example_fleet =
     [[(0, 0), (0, 1), (0, 2), (0, 3)], [(2, 0), (2, 1), (2, 2)], [(4, 0), (4, 1), (4, 2)],
      [(6, 0), (6, 1)], [(8, 0), (8, 1)], [(0, 5), (0, 6)],
      [(2, 5)], [(4, 5)], [(6, 5)], [(8, 5)]]"

text \<open>
  A random stream whose draws are all zero: every attempt is the horizontal run at row
  0, column 0.  The first ship fits, and every later attempt overlaps it.
\<close>

definition zero_stream :: "nat \<Rightarrow> rng" where
  "zero_stream k = \<lparr>draws = (\<lambda>_. 0), next_draw = k\<rparr>"

subsection \<open>Drawn ships are straight and in bounds\<close>

lemma int_run_image: "{c..<c + int n} = (\<lambda>i. c + int i) ` {0..<n}"
proof
  show "{c..<c + int n} \<subseteq> (\<lambda>i. c + int i) ` {0..<n}"
  proof
    fix x
    assume "x \<in> {c..<c + int n}"
    then have "x = c + int (nat (x - c))" "nat (x - c) \<in> {0..<n}" by auto
    then show "x \<in> (\<lambda>i. c + int i) ` {0..<n}" by (rule image_eqI)
  qed
qed auto

lemma set_hline: "set (map (\<lambda>i. (row, col + int i)) [0..<n]) = hrun row col n"
  by (auto simp: hrun_def int_run_image)

lemma set_vline: "set (map (\<lambda>i. (row + int i, col)) [0..<n]) = vrun row col n"
  by (auto simp: vrun_def int_run_image)

lemma hline_ok:
  assumes "0 < n" "0 \<le> row" "row < BOARD_SIZE" "0 \<le> col" "col \<le> BOARD_SIZE - int n"
  shows "validate_ship_shape (map (\<lambda>i. (row, col + int i)) [0..<n]) n \<and>
         ship_ok (set (map (\<lambda>i. (row, col + int i)) [0..<n])) n"
proof -
  have "distinct (map (\<lambda>i. (row, col + int i)) [0..<n])"
    by (simp add: distinct_map inj_on_def)
  moreover have "straight_line (set (map (\<lambda>i. (row, col + int i)) [0..<n])) n"
    unfolding set_hline straight_line_def by blast
  moreover have "\<forall>p \<in> set (map (\<lambda>i. (row, col + int i)) [0..<n]). in_bounds p"
    using assms by (auto simp: in_bounds_def)
  ultimately show ?thesis
    using assms(1) by (simp add: validate_ship_shape_straight ship_ok_def)
qed

lemma vline_ok:
  assumes "0 < n" "0 \<le> row" "row \<le> BOARD_SIZE - int n" "0 \<le> col" "col < BOARD_SIZE"
  shows "validate_ship_shape (map (\<lambda>i. (row + int i, col)) [0..<n]) n \<and>
         ship_ok (set (map (\<lambda>i. (row + int i, col)) [0..<n])) n"
proof -
  have "distinct (map (\<lambda>i. (row + int i, col)) [0..<n])"
    by (simp add: distinct_map inj_on_def)
  moreover have "straight_line (set (map (\<lambda>i. (row + int i, col)) [0..<n])) n"
    unfolding set_vline straight_line_def by blast
  moreover have "\<forall>p \<in> set (map (\<lambda>i. (row + int i, col)) [0..<n]). in_bounds p"
    using assms by (auto simp: in_bounds_def)
  ultimately show ?thesis
    using assms(1) by (simp add: validate_ship_shape_straight ship_ok_def)
qed

lemma draw_ship_ok:
  assumes "0 < n" "int n \<le> BOARD_SIZE"
  shows "validate_ship_shape (fst (draw_ship n r)) n \<and> ship_ok (set (fst (draw_ship n r))) n"
proof -
  obtain h r1 where c: "choice [True, False] r = (h, r1)"
    by (cases "choice [True, False] r")
  show ?thesis
  proof (cases h)
    case True
    obtain row r2 where a: "randint 0 (BOARD_SIZE - 1) r1 = (row, r2)"
      by (cases "randint 0 (BOARD_SIZE - 1) r1")
    obtain col r3 where b: "randint 0 (BOARD_SIZE - int n) r2 = (col, r3)"
      by (cases "randint 0 (BOARD_SIZE - int n) r2")
    have "0 \<le> row \<and> row \<le> BOARD_SIZE - 1"
      using randint_range [of 0 "BOARD_SIZE - 1" r1] a by (simp add: BOARD_SIZE_def)
    moreover have "0 \<le> col \<and> col \<le> BOARD_SIZE - int n"
      using randint_range [of 0 "BOARD_SIZE - int n" r2] b assms(2) by simp
    moreover have "fst (draw_ship n r) = map (\<lambda>i. (row, col + int i)) [0..<n]"
      using c a b True by (simp add: draw_ship_def)
    ultimately show ?thesis
      using hline_ok [OF assms(1)] by simp
  next
    case False
    obtain row r2 where a: "randint 0 (BOARD_SIZE - int n) r1 = (row, r2)"
      by (cases "randint 0 (BOARD_SIZE - int n) r1")
    obtain col r3 where b: "randint 0 (BOARD_SIZE - 1) r2 = (col, r3)"
      by (cases "randint 0 (BOARD_SIZE - 1) r2")
    have "0 \<le> row \<and> row \<le> BOARD_SIZE - int n"
      using randint_range [of 0 "BOARD_SIZE - int n" r1] a assms(2) by simp
    moreover have "0 \<le> col \<and> col \<le> BOARD_SIZE - 1"
      using randint_range [of 0 "BOARD_SIZE - 1" r2] b by (simp add: BOARD_SIZE_def)
    moreover have "fst (draw_ship n r) = map (\<lambda>i. (row + int i, col)) [0..<n]"
      using c a b False by (simp add: draw_ship_def)
    ultimately show ?thesis
      using vline_ok [OF assms(1)] by simp
  qed
qed

subsection \<open>The loops\<close>

lemma place_attempts_Some:
  "fst (place_attempts k n ships placed_cells r) = Some coords \<Longrightarrow>
   (\<exists>r0. coords = fst (draw_ship n r0)) \<and> set coords \<inter> placed_cells = {} \<and>
   \<not> ships_touch (set coords) (map set ships)"
proof (induction k arbitrary: r)
  case 0
  then show ?case by simp
next
  case (Suc k)
  obtain cs r' where d: "draw_ship n r = (cs, r')"
    by (cases "draw_ship n r")
  show ?case
  proof (cases "set cs \<inter> placed_cells \<noteq> {} \<or> ships_touch (set cs) (map set ships)")
    case True
    then show ?thesis using Suc d by simp
  next
    case False
    then have "coords = cs" using Suc.prems d by simp
    with False d show ?thesis by (metis fst_conv)
  qed
qed

text \<open>
  The invariant of the outer loop: the ships placed so far form a valid fleet for the
  sizes consumed, each passes the player's shape check, and \<^verbatim>\<open>placed_cells\<close>
  is the union of their cells.
\<close>

lemma place_fleet_valid:
  assumes "fleet_valid sizes0 (map set ships)" "list_all2 validate_ship_shape ships sizes0"
    and "placed_cells = \<Union> (set ` set ships)"
    and "\<forall>n \<in> set sizes. 0 < n \<and> int n \<le> BOARD_SIZE"
    and "fst (place_fleet sizes ships placed_cells r) = Some ships'"
  shows "fleet_valid (sizes0 @ sizes) (map set ships') \<and> list_all2 validate_ship_shape ships' (sizes0 @ sizes)"
  using assms
proof (induction sizes arbitrary: sizes0 ships placed_cells r)
  case Nil
  then show ?case by simp
next
  case (Cons n sizes)
  obtain res r' where pa: "place_attempts 1000 n ships placed_cells r = (res, r')"
    by (cases "place_attempts 1000 n ships placed_cells r")
  obtain coords where res: "res = Some coords"
    using Cons.prems(5) pa by (cases res) auto
  from place_attempts_Some [of 1000 n ships placed_cells r coords] pa res
  obtain r0 where drawn: "coords = fst (draw_ship n r0)"
    and disj: "set coords \<inter> placed_cells = {}" and touch: "\<not> ships_touch (set coords) (map set ships)"
    by auto
  have n: "0 < n" "int n \<le> BOARD_SIZE" using Cons.prems(4) by auto
  have shape: "validate_ship_shape coords n" and ok: "ship_ok (set coords) n"
    using draw_ship_ok [OF n, of r0] drawn by simp_all
  have "fleet_valid (sizes0 @ [n]) (map set (ships @ [coords]))"
    by (rule accept_ship_valid [OF Cons.prems(1,3) ok disj touch])
  moreover have "list_all2 validate_ship_shape (ships @ [coords]) (sizes0 @ [n])"
    using Cons.prems(2) shape by (simp add: list_all2_appendI)
  moreover have "placed_cells \<union> set coords = \<Union> (set ` set (ships @ [coords]))"
    using Cons.prems(3) by auto
  moreover have "fst (place_fleet sizes (ships @ [coords]) (placed_cells \<union> set coords) r') = Some ships'"
    using Cons.prems(5) pa res by simp
  ultimately show ?case
    using Cons.IH [of "sizes0 @ [n]" "ships @ [coords]"] Cons.prems(4) by simp
qed

lemma SHIP_SIZES_range: "\<forall>n \<in> set SHIP_SIZES. 0 < n \<and> int n \<le> BOARD_SIZE"
  by (simp add: SHIP_SIZES_def BOARD_SIZE_def)

lemma fleet_valid_Nil: "fleet_valid [] []"
  by (simp add: fleet_valid_def fleet_ok_def)

subsection \<open>Every fleet can be drawn\<close>

lemma place_attempts_first:
  assumes "draw_ship n r = (coords, r')" "set coords \<inter> placed_cells = {}"
    "\<not> ships_touch (set coords) (map set ships)"
  shows "place_attempts 1000 n ships placed_cells r = (Some coords, r')"
proof -
  have "(1000 :: nat) = Suc 999" by simp
  then have "place_attempts 1000 n ships placed_cells r = place_attempts (Suc 999) n ships placed_cells r"
    by (simp only:)
  also have "\<dots> = (Some coords, r')"
    unfolding place_attempts.simps(2) using assms by (simp add: Let_def)
  finally show ?thesis .
qed

lemma draw_ship_horizontal:
  assumes "f k = 0" "f (Suc k) = nat row" "f (Suc (Suc k)) = nat col"
    "0 \<le> row" "row < BOARD_SIZE" "0 \<le> col" "col \<le> BOARD_SIZE - int n"
  shows "draw_ship n \<lparr>draws = f, next_draw = k\<rparr> =
           (map (\<lambda>i. (row, col + int i)) [0..<n], \<lparr>draws = f, next_draw = k + 3\<rparr>)"
proof -
  have "nat row mod 10 = nat row" "nat col mod nat (BOARD_SIZE - int n + 1) = nat col"
    using assms(4-7) by (simp_all add: BOARD_SIZE_def nat_less_iff)
  then show ?thesis
    using assms(1-4,6) by (simp add: draw_ship_def choice_def randint_def randbelow_def BOARD_SIZE_def)
qed

lemma draw_ship_vertical:
  assumes "f k = 1" "f (Suc k) = nat row" "f (Suc (Suc k)) = nat col"
    "0 \<le> row" "row \<le> BOARD_SIZE - int n" "0 \<le> col" "col < BOARD_SIZE"
  shows "draw_ship n \<lparr>draws = f, next_draw = k\<rparr> =
           (map (\<lambda>i. (row + int i, col)) [0..<n], \<lparr>draws = f, next_draw = k + 3\<rparr>)"
proof -
  have "nat col mod 10 = nat col" "nat row mod nat (BOARD_SIZE - int n + 1) = nat row"
    using assms(4-7) by (simp_all add: BOARD_SIZE_def nat_less_iff)
  then show ?thesis
    using assms(1-4,6) by (simp add: draw_ship_def choice_def randint_def randbelow_def BOARD_SIZE_def)
qed


lemma fleet_valid_take: "fleet_valid sizes ships \<Longrightarrow> fleet_valid (take m sizes) (take m ships)"
  by (auto simp: fleet_valid_def fleet_ok_def)

lemma ship_draw_exists:
  assumes "ship_ok S n"
  shows "\<exists>coords d0 d1 d2. set coords = S \<and>
           (\<forall>f k. f k = d0 \<longrightarrow> f (Suc k) = d1 \<longrightarrow> f (Suc (Suc k)) = d2 \<longrightarrow>
              draw_ship n \<lparr>draws = f, next_draw = k\<rparr> = (coords, \<lparr>draws = f, next_draw = k + 3\<rparr>))"
proof -
  from assms have n: "0 < n" and b: "\<forall>p \<in> S. in_bounds p" and "straight_line S n"
    by (auto simp: ship_ok_def)
  then obtain row col where "S = hrun row col n \<or> S = vrun row col n"
    by (auto simp: straight_line_def)
  then show ?thesis
  proof
    assume S: "S = hrun row col n"
    have "(row, col) \<in> S" "(row, col + int n - 1) \<in> S"
      using n by (auto simp: S hrun_def)
    then have "0 \<le> row" "row < BOARD_SIZE" "0 \<le> col" "col \<le> BOARD_SIZE - int n"
      using b by (auto simp: in_bounds_def)
    then have "\<forall>f k. f k = 0 \<longrightarrow> f (Suc k) = nat row \<longrightarrow> f (Suc (Suc k)) = nat col \<longrightarrow>
        draw_ship n \<lparr>draws = f, next_draw = k\<rparr> =
          (map (\<lambda>i. (row, col + int i)) [0..<n], \<lparr>draws = f, next_draw = k + 3\<rparr>)"
      using draw_ship_horizontal by blast
    moreover have "set (map (\<lambda>i. (row, col + int i)) [0..<n]) = S"
      by (simp only: set_hline S)
    ultimately show ?thesis by blast
  next
    assume S: "S = vrun row col n"
    have "(row, col) \<in> S" "(row + int n - 1, col) \<in> S"
      using n by (auto simp: S vrun_def)
    then have "0 \<le> row" "row \<le> BOARD_SIZE - int n" "0 \<le> col" "col < BOARD_SIZE"
      using b by (auto simp: in_bounds_def)
    then have "\<forall>f k. f k = 1 \<longrightarrow> f (Suc k) = nat row \<longrightarrow> f (Suc (Suc k)) = nat col \<longrightarrow>
        draw_ship n \<lparr>draws = f, next_draw = k\<rparr> =
          (map (\<lambda>i. (row + int i, col)) [0..<n], \<lparr>draws = f, next_draw = k + 3\<rparr>)"
      using draw_ship_vertical by blast
    moreover have "set (map (\<lambda>i. (row + int i, col)) [0..<n]) = S"
      by (simp only: set_vline S)
    ultimately show ?thesis by blast
  qed
qed


lemma place_fleet_onto:
  assumes "fleet_valid (sizes0 @ sizes) (map set ships0 @ rest)"
    and "placed_cells = \<Union> (set ` set ships0)" and "length ships0 = length sizes0"
  shows "\<exists>ds. \<forall>f k. (\<forall>i < length ds. f (k + i) = ds ! i) \<longrightarrow>
           (\<exists>ships r'. place_fleet sizes ships0 placed_cells \<lparr>draws = f, next_draw = k\<rparr> =
                          (Some (ships0 @ ships), r') \<and> map set ships = rest)"
  using assms
proof (induction sizes arbitrary: sizes0 ships0 placed_cells rest)
  case Nil
  then have "rest = []" by (simp add: fleet_valid_def)
  then show ?case by (intro exI [of _ "[]"]) simp
next
  case (Cons n sizes)
  from Cons.prems(1,3) obtain S rest' where rest: "rest = S # rest'"
    by (cases rest) (auto simp: fleet_valid_def)
  let ?m = "Suc (length ships0)"
  have "fleet_valid (take ?m (sizes0 @ n # sizes)) (take ?m (map set ships0 @ rest))"
    using Cons.prems(1) by (rule fleet_valid_take)
  then have pre: "fleet_valid (sizes0 @ [n]) (map set ships0 @ [S])"
    using Cons.prems(3) rest by simp
  then have ok: "ship_ok S n" and sep: "\<forall>x \<in> set (map set ships0). x \<inter> S = {} \<and> \<not> touching x S"
    using fleet_valid_snoc [of sizes0 n "map set ships0" S] by auto
  obtain coords d0 d1 d2 where sc: "set coords = S"
    and draw: "\<forall>f k. f k = d0 \<longrightarrow> f (Suc k) = d1 \<longrightarrow> f (Suc (Suc k)) = d2 \<longrightarrow>
                 draw_ship n \<lparr>draws = f, next_draw = k\<rparr> = (coords, \<lparr>draws = f, next_draw = k + 3\<rparr>)"
    using ship_draw_exists [OF ok] by blast
  have disj: "set coords \<inter> placed_cells = {}"
    using sep sc Cons.prems(2) by auto
  have bnds: "\<forall>T \<in> set (map set ships0). \<forall>p \<in> T. in_bounds p"
  proof (intro ballI)
    fix T p
    assume T: "T \<in> set (map set ships0)" and p: "p \<in> T"
    show "in_bounds p"
      by (rule fleet_valid_in_bounds [OF pre _ p]) (use T in simp)
  qed
  have nt: "\<not> (\<exists>x \<in> set (map set ships0). touching (set coords) x)"
    using sep sc by (simp add: touching_sym [of S])
  have touch: "\<not> ships_touch (set coords) (map set ships0)"
    using ships_touch_touching [OF bnds] nt by simp
  have f1: "fleet_valid ((sizes0 @ [n]) @ sizes) (map set (ships0 @ [coords]) @ rest')"
    using Cons.prems(1) rest sc by simp
  have f2: "placed_cells \<union> set coords = \<Union> (set ` set (ships0 @ [coords]))"
    using Cons.prems(2) by auto
  have f3: "length (ships0 @ [coords]) = length (sizes0 @ [n])"
    using Cons.prems(3) by simp
  from Cons.IH [OF f1 f2 f3] obtain ds where ih: "\<forall>f k. (\<forall>i < length ds. f (k + i) = ds ! i) \<longrightarrow>
       (\<exists>ships r'. place_fleet sizes (ships0 @ [coords]) (placed_cells \<union> set coords)
                     \<lparr>draws = f, next_draw = k\<rparr> = (Some ((ships0 @ [coords]) @ ships), r') \<and>
                   map set ships = rest')"
    by blast
  show ?case
  proof (rule exI [of _ "[d0, d1, d2] @ ds"], intro allI impI)
    fix f k
    assume pfx: "\<forall>i < length ([d0, d1, d2] @ ds). f (k + i) = ([d0, d1, d2] @ ds) ! i"
    then have "f k = d0" "f (Suc k) = d1" "f (Suc (Suc k)) = d2"
      using spec [OF pfx, of 0] spec [OF pfx, of 1] spec [OF pfx, of 2] by simp_all
    then have d: "draw_ship n \<lparr>draws = f, next_draw = k\<rparr> = (coords, \<lparr>draws = f, next_draw = k + 3\<rparr>)"
      using draw by blast
    have "\<forall>i < length ds. f (k + 3 + i) = ds ! i"
    proof (intro allI impI)
      fix i assume "i < length ds"
      then show "f (k + 3 + i) = ds ! i"
        using spec [OF pfx, of "i + 3"] by (simp add: add.commute add.left_commute)
    qed
    then obtain ships r' where
      "place_fleet sizes (ships0 @ [coords]) (placed_cells \<union> set coords)
         \<lparr>draws = f, next_draw = k + 3\<rparr> = (Some ((ships0 @ [coords]) @ ships), r')"
      and "map set ships = rest'"
      using ih by blast
    then show "\<exists>ships r'. place_fleet (n # sizes) ships0 placed_cells \<lparr>draws = f, next_draw = k\<rparr> =
                 (Some (ships0 @ ships), r') \<and> map set ships = rest"
      using place_attempts_first [OF d disj touch] rest sc
      by (intro exI [of _ "coords # ships"] exI [of _ r']) simp
  qed
qed

subsection \<open>Returning and not returning\<close>

lemma generate_bot_ships_round:
  "place_fleet SHIP_SIZES [] {} r = (Some ships, r') \<Longrightarrow> generate_bot_ships r = Some (ships, r')"
  by (subst generate_bot_ships.simps) simp

lemma place_fleet_example: "fst (place_fleet SHIP_SIZES [] {} example_stream) = Some example_fleet"
  unfolding example_stream_def example_draws_def example_fleet_def SHIP_SIZES_def BOARD_SIZE_def
  by code_simp

lemma draw_ship_zero:
  "int n \<le> BOARD_SIZE \<Longrightarrow> draw_ship n (zero_stream k) = (map (\<lambda>i. (0, int i)) [0..<n], zero_stream (k + 3))"
  by (simp add: draw_ship_def choice_def randint_def randbelow_def zero_stream_def BOARD_SIZE_def)

lemma place_attempts_zero_blocked:
  assumes "int n \<le> BOARD_SIZE" "set (map (\<lambda>i. (0, int i)) [0..<n]) \<inter> placed_cells \<noteq> {}"
  shows "place_attempts m n ships placed_cells (zero_stream k) = (None, zero_stream (k + 3 * m))"
  using assms
proof (induction m arbitrary: k)
  case 0
  then show ?case by simp
next
  case (Suc m)
  then show ?case
    using Suc.IH [of "k + 3"] by (simp add: draw_ship_zero Let_def add.assoc)
qed

lemma place_fleet_zero: "place_fleet SHIP_SIZES [] {} (zero_stream k) = (None, zero_stream (k + 3003))"
proof -
  let ?s = "[(0, 0), (0, 1), (0, 2), (0, 3)] :: coord list"
  have d4: "draw_ship 4 (zero_stream k) = (?s, zero_stream (k + 3))"
    using draw_ship_zero [of 4 k] by (simp add: BOARD_SIZE_def upt_rec)
  have "(1000 :: nat) = Suc 999" by simp
  then have "place_attempts 1000 4 [] {} (zero_stream k) = place_attempts (Suc 999) 4 [] {} (zero_stream k)"
    by (simp only:)
  also have "\<dots> = (Some ?s, zero_stream (k + 3))"
    unfolding place_attempts.simps(2) d4 by (simp add: Let_def)
  finally have first: "place_attempts 1000 4 [] {} (zero_stream k) = (Some ?s, zero_stream (k + 3))" .
  have "set (map (\<lambda>i. (0, int i)) [0..<3]) \<inter> ({} \<union> set ?s) \<noteq> {}"
    by (simp add: upt_rec)
  then have "place_attempts 1000 3 [?s] ({} \<union> set ?s) (zero_stream (k + 3)) = (None, zero_stream (k + 3003))"
    using place_attempts_zero_blocked [of 3 "{} \<union> set ?s" 1000 "[?s]" "k + 3"]
    by (simp add: BOARD_SIZE_def add.commute)
  then show ?thesis
    by (simp add: SHIP_SIZES_def first)
qed

lemma generate_example: "\<exists>r'. generate_bot_ships example_stream = Some (example_fleet, r')"
proof -
  obtain r' where "place_fleet SHIP_SIZES [] {} example_stream = (Some example_fleet, r')"
    using place_fleet_example by (cases "place_fleet SHIP_SIZES [] {} example_stream") simp
  then show ?thesis
    by (blast intro: generate_bot_ships_round)
qed

lemma example_fleet_valid: "fleet_valid SHIP_SIZES (map set example_fleet)"
  using place_fleet_valid [of "[]" "[]" "{}" SHIP_SIZES example_stream example_fleet] place_fleet_example
  by (simp add: fleet_valid_Nil SHIP_SIZES_range)

subsection \<open>Properties\<close>

text \<open>
  C20: every fleet the generator returns is valid: one ship per entry of
  \<^verbatim>\<open>SHIP_SIZES\<close>, each a straight in-bounds run of its size that the player's
  shape check \<^verbatim>\<open>validate_ship_shape\<close> accepts, no two sharing a cell or touching.
\<close>

theorem generate_bot_ships_valid:
  "generate_bot_ships r = Some (ships, r') \<Longrightarrow>
   fleet_valid SHIP_SIZES (map set ships) \<and> list_all2 validate_ship_shape ships SHIP_SIZES"
proof -
  define Q where "Q y \<longleftrightarrow> fleet_valid SHIP_SIZES (map set (fst y)) \<and>
                            list_all2 validate_ship_shape (fst y) SHIP_SIZES" for y :: "coord list list \<times> rng"
  have round: "Q y" if "fst (place_fleet SHIP_SIZES [] {} x) = Some (fst y)" for x y
    using place_fleet_valid [of "[]" "[]" "{}" SHIP_SIZES x "fst y"] that
    by (simp add: Q_def fleet_valid_Nil SHIP_SIZES_range)
  have step: "Q y"
    if ih: "\<And>x y. gen x = Some y \<Longrightarrow> Q y"
      and body: "(case place_fleet SHIP_SIZES [] {} x of
                    (Some ships, r') \<Rightarrow> Some (ships, r')
                  | (None, r') \<Rightarrow> gen r') = Some y" for gen x y
  proof (cases "place_fleet SHIP_SIZES [] {} x")
    case (Pair res x')
    show ?thesis
    proof (cases res)
      case None
      with body Pair have "gen x' = Some y" by simp
      then show ?thesis by (rule ih)
    next
      case (Some fleet)
      with body Pair have "fst (place_fleet SHIP_SIZES [] {} x) = Some (fst y)" by auto
      then show ?thesis by (rule round)
    qed
  qed
  assume g: "generate_bot_ships r = Some (ships, r')"
  have "Q (ships, r')"
    using step g by (rule generate_bot_ships.raw_induct [of "\<lambda>_. Q"])
  then show ?thesis
    by (simp add: Q_def)
qed

text \<open>
  C21: the generator can produce every valid fleet: for each fleet of straight in-bounds
  ships of the sizes of \<^verbatim>\<open>SHIP_SIZES\<close> that share no cell and do not touch,
  some random stream makes \<^verbatim>\<open>generate_bot_ships\<close> return it, in its first
  round.
\<close>

theorem generate_bot_ships_onto:
  "fleet_valid SHIP_SIZES fleet \<Longrightarrow>
   \<exists>r ships r'. generate_bot_ships r = Some (ships, r') \<and> map set ships = fleet"
proof -
  assume v: "fleet_valid SHIP_SIZES fleet"
  obtain ds where ds: "\<forall>f k. (\<forall>i < length ds. f (k + i) = ds ! i) \<longrightarrow>
      (\<exists>ships r'. place_fleet SHIP_SIZES [] {} \<lparr>draws = f, next_draw = k\<rparr> = (Some ([] @ ships), r') \<and>
                  map set ships = fleet)"
    using place_fleet_onto [of "[]" SHIP_SIZES "[]" fleet "{}"] v by auto
  define f where "f = (\<lambda>i. if i < length ds then ds ! i else 0)"
  have "\<forall>i < length ds. f (0 + i) = ds ! i" by (simp add: f_def)
  with ds have "\<exists>ships r'. place_fleet SHIP_SIZES [] {} \<lparr>draws = f, next_draw = 0\<rparr> = (Some ([] @ ships), r') \<and>
                  map set ships = fleet"
    by blast
  then obtain ships r'
    where "place_fleet SHIP_SIZES [] {} \<lparr>draws = f, next_draw = 0\<rparr> = (Some ships, r')"
      and "map set ships = fleet"
    by auto
  then show ?thesis
    by (blast intro: generate_bot_ships_round)
qed

text \<open>
  C22: the generator need not return.  On the all-zero stream every round places the
  first ship at A1--D1 and then fails 1000 times on the second, and the restart
  recursion goes on for ever: \<^verbatim>\<open>generate_bot_ships\<close> has no bound on its
  restarts (CPython stops it with \<^verbatim>\<open>RecursionError\<close> after about a thousand).
\<close>

theorem generate_bot_ships_zero_stream: "generate_bot_ships (zero_stream k) = None"
proof -
  have step: "x \<notin> range zero_stream"
    if ih: "\<And>x y. gen x = Some y \<Longrightarrow> x \<notin> range zero_stream"
      and body: "(case place_fleet SHIP_SIZES [] {} x of
                    (Some ships, r') \<Rightarrow> Some (ships, r')
                  | (None, r') \<Rightarrow> gen r') = Some y" for gen x y
  proof
    assume "x \<in> range zero_stream"
    then obtain j where "x = zero_stream j" by blast
    with body have "gen (zero_stream (j + 3003)) = Some y"
      by (simp add: place_fleet_zero)
    then have "zero_stream (j + 3003) \<notin> range zero_stream" by (rule ih)
    then show False by simp
  qed
  show ?thesis
  proof (rule ccontr)
    assume "generate_bot_ships (zero_stream k) \<noteq> None"
    then obtain y where g: "generate_bot_ships (zero_stream k) = Some y" by blast
    have "zero_stream k \<notin> range zero_stream"
      using step g by (rule generate_bot_ships.raw_induct [of "\<lambda>x _. x \<notin> range zero_stream"])
    then show False by simp
  qed
qed

subsection \<open>Witnesses\<close>

text \<open>C20, witness: the fleet drawn from the example stream.\<close>

theorem generate_bot_ships_valid_witness:
  "(\<exists>r'. generate_bot_ships example_stream = Some (example_fleet, r')) \<and>
   fleet_valid SHIP_SIZES (map set example_fleet) \<and> list_all2 validate_ship_shape example_fleet SHIP_SIZES"
proof -
  obtain r' where g: "generate_bot_ships example_stream = Some (example_fleet, r')"
    using generate_example by blast
  from generate_bot_ships_valid [OF g] g show ?thesis by blast
qed

text \<open>C21, witness: the valid example fleet is produced by some stream.\<close>

theorem generate_bot_ships_onto_witness:
  "fleet_valid SHIP_SIZES (map set example_fleet) \<and>
   (\<exists>r ships r'. generate_bot_ships r = Some (ships, r') \<and> map set ships = map set example_fleet)"
  using generate_bot_ships_onto [OF example_fleet_valid] example_fleet_valid by blast

end
