(* ===== verification/GameLoop.thy ===== *)
theory GameLoop
  imports Persistence BotAI Generator
begin

text \<open>
  The interactive loops of the program: \<^verbatim>\<open>get_player_ships\<close>
  (\<^verbatim>\<open>src/src/ship_input.py\<close>) and \<^verbatim>\<open>get_player_move\<close>, \<^verbatim>\<open>play_game\<close>,
  \<^verbatim>\<open>setup_game\<close> and \<^verbatim>\<open>main\<close> (\<^verbatim>\<open>src/main.py\<close>).  Standard input is
  the list of lines still to be read; \<^verbatim>\<open>input()\<close> on an exhausted input raises
  \<^verbatim>\<open>EOFError\<close>.  The two input loops catch every \<^verbatim>\<open>Exception\<close> and ask
  again, so on an exhausted input they never return: they are
  \<open>partial_function (option)\<close>s, \<open>None\<close> being a loop that does not end.  The
  files \<^verbatim>\<open>data/*.csv\<close> are the row lists of \<open>Persistence\<close>; printing, screen
  clearing and directory creation are not modelled.
\<close>

subsection \<open>Ship placement (\<^verbatim>\<open>ship_input.py\<close>)\<close>

text \<open>\<^verbatim>\<open>str.lower\<close> on one ASCII character.\<close>

definition py_lower :: "char \<Rightarrow> char" where
  "py_lower c = (let n = of_char c :: nat in if 65 \<le> n \<and> n \<le> 90 then char_of (n + 32) else c)"

text \<open>
  The \<^verbatim>\<open>while True\<close> loop of \<^verbatim>\<open>get_player_ships\<close> for the remaining sizes:
  \<^verbatim>\<open>quit\<close> or \<^verbatim>\<open>exit\<close> cancels with \<open>[]\<close>, a rejected ship asks again
  (\<^verbatim>\<open>continue\<close>), an accepted one moves to the next size.
\<close>

partial_function (option) placement_loop ::
  "nat list \<Rightarrow> coord list list \<Rightarrow> coord set \<Rightarrow> string list \<Rightarrow> (coord list list \<times> string list) option" where
  "placement_loop sizes ships placed_cells inputs =
     (case sizes of
        [] \<Rightarrow> Some (ships, inputs)
      | ship_size # sizes' \<Rightarrow>
          (case inputs of
             [] \<Rightarrow> placement_loop sizes ships placed_cells []
           | input_str # rest \<Rightarrow>
               (if map py_lower input_str = ''quit'' \<or> map py_lower input_str = ''exit'' then Some ([], rest)
                else
                  (case place_ship ships placed_cells ship_size (parse_ship_input input_str) of
                     Inl _ \<Rightarrow> placement_loop sizes ships placed_cells rest
                   | Inr (ships', placed') \<Rightarrow> placement_loop sizes' ships' placed' rest))))"

definition get_player_ships :: "string list \<Rightarrow> (coord list list \<times> string list) option" where
  "get_player_ships inputs = placement_loop SHIP_SIZES [] {} inputs"

subsection \<open>The player's move (\<^verbatim>\<open>main.py\<close>)\<close>

text \<open>
  \<^verbatim>\<open>get_player_move\<close>: \<open>Some (None, _)\<close> is \<^verbatim>\<open>QUIT\<close>/\<^verbatim>\<open>EXIT\<close>; a
  malformed line (\<^verbatim>\<open>ValueError\<close>, \<^verbatim>\<open>IndexError\<close>), an out-of-bounds cell
  or a cell already tried asks again.
\<close>

partial_function (option) get_player_move ::
  "game_state \<Rightarrow> string list \<Rightarrow> (coord option \<times> string list) option" where
  "get_player_move game_state inputs =
     (case inputs of
        [] \<Rightarrow> get_player_move game_state []
      | line # rest \<Rightarrow>
          (let move_str = map py_upper (py_strip line) in
           if move_str = ''QUIT'' \<or> move_str = ''EXIT'' then Some (None, rest)
           else
             (case str_to_coord move_str of
                Inl _ \<Rightarrow> get_player_move game_state rest
              | Inr coord \<Rightarrow>
                  if \<not> (0 \<le> fst coord \<and> fst coord < BOARD_SIZE \<and> 0 \<le> snd coord \<and> snd coord < BOARD_SIZE)
                  then get_player_move game_state rest
                  else if \<not> is_valid_move coord True game_state then get_player_move game_state rest
                  else Some (Some coord, rest))))"

subsection \<open>The game loop (\<^verbatim>\<open>play_game\<close>)\<close>

definition result_str :: "bool \<Rightarrow> bool \<Rightarrow> string" where
  "result_str hit destroyed = (if destroyed then ''HIT+DESTROYED'' else if hit then ''HIT'' else ''MISS'')"

datatype game_end = Quit | PlayerWins | BotWins | Crash py_error

text \<open>The state the loop carries: the game, the random generator, the log file, the input.\<close>

record loop_state =
  game :: game_state
  gen :: rng
  log :: "string list list option"
  inputs :: "string list"

text \<open>
  One iteration of \<^verbatim>\<open>while True\<close> in \<^verbatim>\<open>play_game\<close>: \<open>Inl\<close> is a
  \<^verbatim>\<open>break\<close> or an exception leaving the loop, \<open>Inr\<close> the state for the next
  round, \<open>None\<close> a \<^verbatim>\<open>get_player_move\<close> that never returns.  The closing
  \<^verbatim>\<open>input("Press Enter...")\<close> reads one line and raises \<^verbatim>\<open>EOFError\<close> when
  there is none; the loop does not catch it.
\<close>

definition play_round :: "loop_state \<Rightarrow> ((game_end \<times> loop_state) + loop_state) option" where
  "play_round s =
     (let gs = (game s)\<lparr>turn := turn (game s) + 1\<rparr> in
      case get_player_move gs (inputs s) of
        None \<Rightarrow> None
      | Some (None, rest) \<Rightarrow> Some (Inl (Quit, s\<lparr>game := gs, inputs := rest\<rparr>))
      | Some (Some player_coord, rest) \<Rightarrow>
          (let ((player_hit, player_destroyed), gs1) = process_move player_coord True gs;
               info1 = AList.update ''player_result'' (result_str player_hit player_destroyed)
                         [(''player_move'', coord_to_str (fst player_coord) (snd player_coord))]
           in if fst (is_game_over gs1) then
                Some (Inl (PlayerWins, \<lparr>game = gs1, gen = gen s,
                                        log = Some (save_state_to_csv gs1 (log s) info1), inputs = rest\<rparr>))
              else
                (case get_bot_move gs1 (gen s) of
                   Inl e \<Rightarrow> Some (Inl (Crash e, s\<lparr>game := gs1, inputs := rest\<rparr>))
                 | Inr (bot_coord, r') \<Rightarrow>
                     (let ((bot_hit, bot_destroyed), gs2) = process_move bot_coord False gs1;
                          gs3 = update_bot_state bot_coord bot_hit bot_destroyed gs2;
                          info2 = AList.update ''bot_result'' (result_str bot_hit bot_destroyed)
                                    (AList.update ''bot_move'' (coord_to_str (fst bot_coord) (snd bot_coord)) info1);
                          log' = save_state_to_csv gs3 (log s) info2
                      in if fst (is_game_over gs3) then
                           Some (Inl (BotWins, \<lparr>game = gs3, gen = r', log = Some log', inputs = rest\<rparr>))
                         else
                           (case rest of
                              [] \<Rightarrow> Some (Inl (Crash EOFError, \<lparr>game = gs3, gen = r', log = Some log', inputs = []\<rparr>))
                            | _ # rest' \<Rightarrow> Some (Inr \<lparr>game = gs3, gen = r', log = Some log', inputs = rest'\<rparr>))))))"

partial_function (option) play_loop :: "loop_state \<Rightarrow> (game_end \<times> loop_state) option" where
  "play_loop s =
     Option.bind (play_round s) (\<lambda>step. case step of Inl fin \<Rightarrow> Some fin | Inr s' \<Rightarrow> play_loop s')"

text \<open>The cells the player has tried, and the invariant of the loop.\<close>

definition player_ledger :: "game_state \<Rightarrow> coord set" where
  "player_ledger gs = player_hits gs \<union> player_misses gs"

definition loop_inv :: "loop_state \<Rightarrow> bool" where
  "loop_inv s \<longleftrightarrow> game_inv (game s) \<and> ai_inv (game s) \<and> (\<forall>c \<in> player_ledger (game s). in_bounds c)"

definition step_state :: "(game_end \<times> loop_state) + loop_state \<Rightarrow> loop_state" where
  "step_state step = (case step of Inl (_, s') \<Rightarrow> s' | Inr s' \<Rightarrow> s')"

text \<open>\<^verbatim>\<open>play_game\<close>: a fresh game state and a removed log file.\<close>

definition play_game :: "coord list list \<Rightarrow> coord list list \<Rightarrow> rng \<Rightarrow> string list \<Rightarrow> (game_end \<times> loop_state) option" where
  "play_game player_ships0 bot_ships0 r input_lines =
     play_loop \<lparr>game = init_game_state player_ships0 bot_ships0, gen = r, log = None, inputs = input_lines\<rparr>"

subsection \<open>Set-up and entry point (\<^verbatim>\<open>main.py\<close>)\<close>

text \<open>
  \<^verbatim>\<open>setup_game\<close>: \<open>None\<close> for the placement is the cancelled set-up; otherwise
  both fleets and the rows written to \<^verbatim>\<open>data/player_ships.csv\<close> and
  \<^verbatim>\<open>data/bot_ships.csv\<close>.
\<close>

definition setup_game ::
  "string list \<Rightarrow> rng \<Rightarrow>
     ((coord list list \<times> coord list list \<times> string list list \<times> string list list) option \<times> string list \<times> rng) option" where
  "setup_game input_lines r =
     Option.bind (get_player_ships input_lines) (\<lambda>(player_ships0, rest).
       if player_ships0 = [] then Some (None, rest, r)
       else Option.bind (generate_bot_ships r) (\<lambda>(bot_ships0, r').
              Some (Some (player_ships0, bot_ships0, save_ships_to_csv player_ships0,
                          save_ships_to_csv bot_ships0), rest, r')))"

text \<open>
  The text of a CSV file as \<^verbatim>\<open>csv.writer\<close> writes it: the fields of a row joined
  by commas, every row ended by \<^verbatim>\<open>\r\n\<close>.  The fields the program writes contain no
  comma, quote or line break, so no field is quoted.
\<close>

fun join_fields :: "string list \<Rightarrow> string" where
  "join_fields [] = []"
| "join_fields [f] = f"
| "join_fields (f # g # fs) = f @ CHR '','' # join_fields (g # fs)"

definition csv_text :: "string list list \<Rightarrow> string" where
  "csv_text rows = concat (map (\<lambda>row. join_fields row @ [CHR 0x0D, CHR 0x0A]) rows)"

text \<open>
  \<^verbatim>\<open>str.count('\\n')\<close>: the non-overlapping occurrences of the two characters
  backslash and \<^verbatim>\<open>n\<close>.
\<close>

fun count_bsn :: "string \<Rightarrow> nat" where
  "count_bsn [] = 0"
| "count_bsn (c # cs) =
     (if c = CHR 0x5C \<and> cs \<noteq> [] \<and> hd cs = CHR ''n'' then Suc (count_bsn (tl cs)) else count_bsn cs)"

text \<open>
  The number \<^verbatim>\<open>main\<close> prints as the total of turns,
  \<^verbatim>\<open>open('data/game_state.csv').read().count('\\n') - 1\<close>.  Inside the braces
  of an f-string, \<^verbatim>\<open>'\\n'\<close> is the two-character string backslash, \<^verbatim>\<open>n\<close>
  (Python 3.12 and later; earlier versions reject the backslash and \<^verbatim>\<open>main.py\<close>
  does not compile), not a line break.
\<close>

definition turns_printed :: "string list list \<Rightarrow> int" where
  "turns_printed rows = int (count_bsn (csv_text rows)) - 1"

text \<open>
  How \<^verbatim>\<open>main\<close> ends: a cancelled set-up, a game over with the number it
  prints as the total of turns (\<open>turns_printed\<close> of the log file), or an exception
  caught by its
  \<^verbatim>\<open>except Exception\<close>.
\<close>

datatype main_exit = SetupCancelled | GameOver game_end int | MainError py_error

definition main :: "string list \<Rightarrow> rng \<Rightarrow> main_exit option" where
  "main input_lines r =
     Option.bind (setup_game input_lines r) (\<lambda>(setup, rest, r').
       case setup of
         None \<Rightarrow> Some SetupCancelled
       | Some (player_ships0, bot_ships0, _, _) \<Rightarrow>
           (case rest of
              [] \<Rightarrow> Some (MainError EOFError)
            | _ # rest' \<Rightarrow>
                Option.bind (play_game player_ships0 bot_ships0 r' rest') (\<lambda>(e, s).
                  case e of
                    Crash err \<Rightarrow> Some (MainError err)
                  | _ \<Rightarrow> (case log s of
                            None \<Rightarrow> Some (MainError FileNotFoundError)
                          | Some rows \<Rightarrow> Some (GameOver e (turns_printed rows))))))"

subsection \<open>A player who types every cell\<close>

text \<open>
  The input of a player who types the cells of a list in order and presses Enter after
  every turn: the line read by \<^verbatim>\<open>input("Press Enter...")\<close> follows every cell.
\<close>

definition cell_inputs :: "coord list \<Rightarrow> string list" where
  "cell_inputs cells = concat (map (\<lambda>c. [coord_to_str (fst c) (snd c), '''']) cells)"

subsection \<open>The log file\<close>

text \<open>
  The rows of a log contain no backslash; a log was extended by one row with
  \<open>save_state_to_csv\<close> from a non-empty move record without backslashes; the
  log at the start of a round holds the header and one row per turn played.
\<close>

definition bs_free :: "string list list \<Rightarrow> bool" where
  "bs_free rows \<longleftrightarrow> CHR 0x5C \<notin> set (concat (concat rows))"

definition logged_by :: "string list list option \<Rightarrow> string list list option \<Rightarrow> bool" where
  "logged_by old new \<longleftrightarrow>
     (\<exists>gs info. info \<noteq> [] \<and> (\<forall>p \<in> set info. CHR 0x5C \<notin> set (snd p)) \<and>
        new = Some (save_state_to_csv gs old info))"


declare get_player_move.simps [code] placement_loop.simps [code] play_loop.simps [code]
  generate_bot_ships.simps [code]

subsection \<open>The input loops\<close>

lemma get_player_move_Some_move:
  assumes "get_player_move gs inp = Some (Some c, rest)"
  shows "in_bounds c \<and> is_valid_move c True gs"
proof -
  define P where "P gs' (inp' :: string list) y \<longleftrightarrow>
      (\<forall>c' rest'. y = (Some c', rest') \<longrightarrow> in_bounds c' \<and> is_valid_move c' True gs')"
    for gs' :: game_state and inp' :: "string list" and y :: "coord option \<times> string list"
  have step: "P gs' inp' y"
    if ih: "\<And>g i y. f g i = Some y \<Longrightarrow> P g i y"
      and body: "(case inp' of [] \<Rightarrow> f gs' []
                 | line # rest \<Rightarrow>
                     let move_str = map py_upper (py_strip line)
                     in if move_str = ''QUIT'' \<or> move_str = ''EXIT'' then Some (None, rest)
                        else case str_to_coord move_str of
                               Inl x \<Rightarrow> f gs' rest
                             | Inr coord \<Rightarrow>
                                 if \<not> (0 \<le> fst coord \<and> fst coord < BOARD_SIZE \<and> 0 \<le> snd coord \<and> snd coord < BOARD_SIZE)
                                 then f gs' rest
                                 else if \<not> is_valid_move coord True gs' then f gs' rest
                                 else Some (Some coord, rest)) = Some y"
    for f :: "game_state \<Rightarrow> string list \<Rightarrow> (coord option \<times> string list) option" and gs' inp' y
  proof (cases inp')
    case Nil
    with body ih show ?thesis by simp
  next
    case (Cons line rest)
    with body ih show ?thesis
      by (auto simp: Let_def P_def in_bounds_def split: if_splits sum.splits)
  qed
  have "P gs inp (Some c, rest)"
    using step assms by (rule get_player_move.raw_induct [of P])
  then show ?thesis by (simp add: P_def)
qed

lemma parse_ship_input_in_bounds: "c \<in> set (parse_ship_input s) \<Longrightarrow> in_bounds c"
proof -
  assume c: "c \<in> set (parse_ship_input s)"
  then obtain cs where cs: "those (map parse_part (py_split (py_strip s))) = Some cs" and "c \<in> set cs"
    by (cases "those (map parse_part (py_split (py_strip s)))")
       (simp_all add: parse_ship_input_def parse_parts_eq)
  moreover from cs have "list_all2 (\<lambda>x y. parse_part x = Some y) (py_split (py_strip s)) cs"
    by (simp add: those_map_Some_iff)
  ultimately show "in_bounds c"
    by (auto simp: list_all2_conv_all_nth in_set_conv_nth dest: parse_part_in_bounds)
qed

lemma placement_loop_valid:
  assumes "placement_loop sizes ships placed_cells inp = Some (ships', rest)"
    and "fleet_valid sizes0 (map set ships)" and "placed_cells = \<Union> (set ` set ships)"
  shows "ships' = [] \<or> fleet_valid (sizes0 @ sizes) (map set ships')"
proof -
  define P where "P sizes ships placed_cells (inp :: string list) y \<longleftrightarrow>
      (\<forall>sizes0. fleet_valid sizes0 (map set ships) \<longrightarrow> placed_cells = \<Union> (set ` set ships) \<longrightarrow>
         fst y = [] \<or> fleet_valid (sizes0 @ sizes) (map set (fst y)))"
    for sizes :: "nat list" and ships placed_cells inp and y :: "coord list list \<times> string list"
  have step: "P sizes ships placed_cells inp y"
    if ih: "\<And>a b c d y. f a b c d = Some y \<Longrightarrow> P a b c d y"
      and body: "(case sizes of [] \<Rightarrow> Some (ships, inp)
                 | ship_size # sizes' \<Rightarrow>
                     case inp of [] \<Rightarrow> f sizes ships placed_cells []
                     | input_str # rest \<Rightarrow>
                         if map py_lower input_str = ''quit'' \<or> map py_lower input_str = ''exit''
                         then Some ([], rest)
                         else case place_ship ships placed_cells ship_size (parse_ship_input input_str) of
                                Inl x \<Rightarrow> f sizes ships placed_cells rest
                              | Inr (ships', placed') \<Rightarrow> f sizes' ships' placed' rest) = Some y"
    for f :: "nat list \<Rightarrow> coord list list \<Rightarrow> coord set \<Rightarrow> string list \<Rightarrow> (coord list list \<times> string list) option"
      and sizes ships placed_cells inp y
  proof (cases sizes)
    case Nil
    with body show ?thesis by (auto simp: P_def)
  next
    case (Cons n sizes')
    show ?thesis
    proof (cases inp)
      case Nil
      with Cons body have "f sizes ships placed_cells [] = Some y" by simp
      then have "P sizes ships placed_cells [] y" by (rule ih)
      then show ?thesis by (simp add: P_def)
    next
      case inp: (Cons line rest)
      show ?thesis
      proof (cases "map py_lower line = ''quit'' \<or> map py_lower line = ''exit''")
        case True
        with Cons inp body have "y = ([], rest)" by simp
        then show ?thesis by (simp add: P_def)
      next
        case quit: False
        show ?thesis
        proof (cases "place_ship ships placed_cells n (parse_ship_input line)")
          case (Inl err)
          with Cons inp quit body have "f sizes ships placed_cells rest = Some y" by simp
          then have "P sizes ships placed_cells rest y" by (rule ih)
          then show ?thesis by (simp add: P_def)
        next
          case (Inr acc)
          obtain ships1 placed1 where acc: "acc = (ships1, placed1)" by (cases acc)
          with Cons inp quit body Inr have "f sizes' ships1 placed1 rest = Some y" by simp
          then have IH: "P sizes' ships1 placed1 rest y" by (rule ih)
          have bounds: "\<forall>p \<in> set (parse_ship_input line). in_bounds p"
            using parse_ship_input_in_bounds by blast
          show ?thesis
            unfolding P_def
          proof (intro allI impI)
            fix sizes0
            assume "fleet_valid sizes0 (map set ships)" "placed_cells = \<Union> (set ` set ships)"
            from place_ship_accepts [OF this bounds Inr [unfolded acc]]
            have "fleet_valid (sizes0 @ [n]) (map set ships1)" "placed1 = \<Union> (set ` set ships1)"
              by simp_all
            with IH have "fst y = [] \<or> fleet_valid ((sizes0 @ [n]) @ sizes') (map set (fst y))"
              unfolding P_def by blast
            with Cons show "fst y = [] \<or> fleet_valid (sizes0 @ sizes) (map set (fst y))"
              by simp
          qed
        qed
      qed
    qed
  qed
  have "P sizes ships placed_cells inp (ships', rest)"
    using step assms(1) by (rule placement_loop.raw_induct [of P])
  with assms(2,3) show ?thesis by (simp add: P_def)
qed

lemma placement_loop_eof: "placement_loop (n # ns) ships placed_cells [] = None"
proof -
  define P where "P (sizes :: nat list) (ships :: coord list list) (placed_cells :: coord set) (inp :: string list)
                    (y :: coord list list \<times> string list) \<longleftrightarrow> sizes = [] \<or> inp \<noteq> []" for sizes ships placed_cells inp y
  have step: "P sizes ships placed_cells inp y"
    if ih: "\<And>a b c d y. f a b c d = Some y \<Longrightarrow> P a b c d y"
      and body: "(case sizes of [] \<Rightarrow> Some (ships, inp)
                 | ship_size # sizes' \<Rightarrow>
                     case inp of [] \<Rightarrow> f sizes ships placed_cells []
                     | input_str # rest \<Rightarrow>
                         if map py_lower input_str = ''quit'' \<or> map py_lower input_str = ''exit''
                         then Some ([], rest)
                         else case place_ship ships placed_cells ship_size (parse_ship_input input_str) of
                                Inl x \<Rightarrow> f sizes ships placed_cells rest
                              | Inr (ships', placed') \<Rightarrow> f sizes' ships' placed' rest) = Some y"
    for f :: "nat list \<Rightarrow> coord list list \<Rightarrow> coord set \<Rightarrow> string list \<Rightarrow> (coord list list \<times> string list) option"
      and sizes ships placed_cells inp y
  proof (cases "sizes \<noteq> [] \<and> inp = []")
    case True
    with body have "f sizes ships placed_cells [] = Some y" by (auto split: list.splits)
    then have "P sizes ships placed_cells [] y" by (rule ih)
    with True show ?thesis by simp
  qed (auto simp: P_def)
  show ?thesis
  proof (rule ccontr)
    assume "placement_loop (n # ns) ships placed_cells [] \<noteq> None"
    then obtain y where "placement_loop (n # ns) ships placed_cells [] = Some y" by blast
    with step have "P (n # ns) ships placed_cells [] y" by (rule placement_loop.raw_induct [of P])
    then show False by (simp add: P_def)
  qed
qed

text \<open>
  C33: on an exhausted standard input \<^verbatim>\<open>get_player_move\<close> never returns: the
  \<^verbatim>\<open>EOFError\<close> of \<^verbatim>\<open>input()\<close> is caught by its
  \<^verbatim>\<open>except Exception\<close> and the loop asks again, forever.
\<close>

theorem get_player_move_eof: "get_player_move gs [] = None"
proof -
  define P where "P (gs :: game_state) (inp :: string list) (y :: coord option \<times> string list) \<longleftrightarrow> inp \<noteq> []"
    for gs inp y
  have step: "P gs' inp' y"
    if ih: "\<And>g i y. f g i = Some y \<Longrightarrow> P g i y"
      and body: "(case inp' of [] \<Rightarrow> f gs' []
                 | line # rest \<Rightarrow>
                     let move_str = map py_upper (py_strip line)
                     in if move_str = ''QUIT'' \<or> move_str = ''EXIT'' then Some (None, rest)
                        else case str_to_coord move_str of
                               Inl x \<Rightarrow> f gs' rest
                             | Inr coord \<Rightarrow>
                                 if \<not> (0 \<le> fst coord \<and> fst coord < BOARD_SIZE \<and> 0 \<le> snd coord \<and> snd coord < BOARD_SIZE)
                                 then f gs' rest
                                 else if \<not> is_valid_move coord True gs' then f gs' rest
                                 else Some (Some coord, rest)) = Some y"
    for f :: "game_state \<Rightarrow> string list \<Rightarrow> (coord option \<times> string list) option" and gs' inp' y
  proof (cases inp')
    case Nil
    with body have "f gs' [] = Some y" by simp
    then have "P gs' [] y" by (rule ih)
    with Nil show ?thesis by simp
  qed (simp add: P_def)
  show ?thesis
  proof (rule ccontr)
    assume "get_player_move gs [] \<noteq> None"
    then obtain y where "get_player_move gs [] = Some y" by blast
    with step have "P gs [] y" by (rule get_player_move.raw_induct [of P])
    then show False by (simp add: P_def)
  qed
qed

subsection \<open>One round\<close>

lemma shoot_ledger:
  "shoot c ships d h m = (r, d', h', m') \<Longrightarrow> h' \<union> m' \<subseteq> insert c (h \<union> m) \<union> Collect in_bounds"
  by (auto simp: shoot_def Let_def surrounding_in_bounds split: option.splits if_splits)

lemma process_move_player_ledger:
  assumes "process_move c True gs = (r, gs')"
  shows "insert c (player_ledger gs) \<subseteq> player_ledger gs'"
    and "player_ledger gs' \<subseteq> insert c (player_ledger gs) \<union> Collect in_bounds"
proof -
  have "attacker_hits gs True \<subseteq> attacker_hits gs' True \<and> attacker_misses gs True \<subseteq> attacker_misses gs' True"
    by (rule process_move_ledger_mono [OF assms])
  moreover have "\<not> is_valid_move c True gs'"
    using process_move_not_valid_after [of c True gs] assms by simp
  ultimately show "insert c (player_ledger gs) \<subseteq> player_ledger gs'"
    by (auto simp: player_ledger_def side_views is_valid_move_def)
  show "player_ledger gs' \<subseteq> insert c (player_ledger gs) \<union> Collect in_bounds"
    using shoot_ledger [OF process_move_side(1) [OF assms]] by (simp add: player_ledger_def side_views)
qed

lemma process_move_bot_ledger:
  "process_move c False gs = (r, gs') \<Longrightarrow> player_ledger gs' = player_ledger gs"
  using process_move_side(3,4) [of c False gs r gs'] by (simp add: player_ledger_def side_views)

lemma update_bot_state_fields [simp]:
  "player_ledger (update_bot_state c h d gs) = player_ledger gs"
  "game_inv (update_bot_state c h d gs) = game_inv gs"
  "turn (update_bot_state c h d gs) = turn gs"
  "bot_ships (update_bot_state c h d gs) = bot_ships gs"
  by (simp_all add: update_bot_state_def Let_def player_ledger_def game_inv_def)

lemma ai_inv_update_bot_state: "ai_inv gs \<Longrightarrow> ai_inv (update_bot_state c h d gs)"
  by (auto simp: ai_inv_def update_bot_state_def Let_def)

lemma turn_update_fields [simp]:
  "player_ledger (gs\<lparr>turn := n\<rparr>) = player_ledger gs"
  "game_inv (gs\<lparr>turn := n\<rparr>) = game_inv gs"
  "ai_inv (gs\<lparr>turn := n\<rparr>) = ai_inv gs"
  "is_valid_move c p (gs\<lparr>turn := n\<rparr>) = is_valid_move c p gs"
  by (simp_all add: player_ledger_def game_inv_def ai_inv_def is_valid_move_def)

lemma finite_in_bounds: "finite (Collect in_bounds)" "card (Collect in_bounds) \<le> 100"
proof -
  have sub: "Collect in_bounds \<subseteq> set board_cells"
    using in_bounds_board_cells by blast
  then show "finite (Collect in_bounds)" by (rule finite_subset) simp
  have "length board_cells = 100"
    by code_simp
  then have "card (set board_cells) \<le> 100"
    using card_length [of board_cells] by simp
  then show "card (Collect in_bounds) \<le> 100"
    using card_mono [OF _ sub] by simp
qed


lemma player_move_cases:
  obtains (div) "get_player_move gs inp = None"
  | (quit) rest where "get_player_move gs inp = Some (None, rest)"
  | (move) pc rest where "get_player_move gs inp = Some (Some pc, rest)"
proof (cases "get_player_move gs inp")
  case None
  then show ?thesis by (rule that(1))
next
  case (Some y)
  obtain a rest where "y = (a, rest)" by (cases y)
  then show ?thesis using Some that(2,3) by (cases a) auto
qed

lemma play_round_step:
  assumes round: "play_round s = Some step" and inv: "loop_inv s"
  shows "loop_inv (step_state step) \<and> turn (game (step_state step)) = turn (game s) + 1 \<and>
         player_ledger (game s) \<subseteq> player_ledger (game (step_state step)) \<and>
         (isl step \<or> player_ledger (game s) \<subset> player_ledger (game (step_state step)))"
proof -
  let ?gs = "(game s)\<lparr>turn := turn (game s) + 1\<rparr>"
  have inv0: "game_inv ?gs" "ai_inv ?gs" "\<forall>c \<in> player_ledger ?gs. in_bounds c"
    using inv by (simp_all add: loop_inv_def)
  show ?thesis
  proof (cases rule: player_move_cases [of ?gs "inputs s"])
    case div
    then show ?thesis using round by (simp add: play_round_def)
  next
    case (quit rest)
    then have "step = Inl (Quit, s\<lparr>game := ?gs, inputs := rest\<rparr>)"
      using round by (simp add: play_round_def)
    then show ?thesis using inv0 by (simp add: loop_inv_def step_state_def)
  next
    case (move pc rest)
    have pc: "in_bounds pc" "is_valid_move pc True ?gs"
      using get_player_move_Some_move [OF move] by auto
    obtain ph pd gs1 where m1: "process_move pc True ?gs = ((ph, pd), gs1)"
      by (cases "process_move pc True ?gs") auto
    have inv1: "game_inv gs1" "ai_inv gs1"
      using process_move_inv [OF inv0(1), of pc True] ai_inv_process_move [OF inv0(2), of pc True] m1
      by simp_all
    have grow: "insert pc (player_ledger ?gs) \<subseteq> player_ledger gs1"
      and led1: "\<forall>c \<in> player_ledger gs1. in_bounds c"
      using process_move_player_ledger [OF m1] inv0(3) pc(1) by auto
    have turn1: "turn gs1 = turn (game s) + 1"
      using process_move_side(7) [OF m1] by simp
    have fresh: "pc \<notin> player_ledger ?gs"
      using pc(2) by (simp add: is_valid_move_def player_ledger_def)
    then have strict: "player_ledger (game s) \<subset> player_ledger gs1"
      using grow by auto
    let ?info1 = "AList.update ''player_result'' (result_str ph pd)
                    [(''player_move'', coord_to_str (fst pc) (snd pc))]"
    show ?thesis
    proof (cases "fst (is_game_over gs1)")
      case True
      then have "step = Inl (PlayerWins, \<lparr>game = gs1, gen = gen s,
                                         log = Some (save_state_to_csv gs1 (log s) ?info1), inputs = rest\<rparr>)"
        using round move m1 by (simp add: play_round_def Let_def)
      then show ?thesis
        using inv1 led1 turn1 strict by (auto simp: loop_inv_def step_state_def)
    next
      case over: False
      show ?thesis
      proof (cases "get_bot_move gs1 (gen s)")
        case (Inl e)
        then have "step = Inl (Crash e, s\<lparr>game := gs1, inputs := rest\<rparr>)"
          using round move m1 over by (simp add: play_round_def Let_def)
        then show ?thesis
          using inv1 led1 turn1 strict by (auto simp: loop_inv_def step_state_def)
      next
        case (Inr br)
        obtain bc r' where br: "br = (bc, r')" by (cases br)
        obtain bh bd gs2 where m2: "process_move bc False gs1 = ((bh, bd), gs2)"
          by (cases "process_move bc False gs1") auto
        let ?gs3 = "update_bot_state bc bh bd gs2"
        have inv3: "game_inv ?gs3" "ai_inv ?gs3"
          using process_move_inv [OF inv1(1), of bc False] ai_inv_process_move [OF inv1(2), of bc False] m2
          by (simp_all add: ai_inv_update_bot_state)
        have led3: "player_ledger ?gs3 = player_ledger gs1" and turn3: "turn ?gs3 = turn gs1"
          using process_move_bot_ledger [OF m2] process_move_side(7) [OF m2] by simp_all
        have "game (step_state step) = ?gs3"
          using round move m1 over Inr br m2
          by (auto simp: play_round_def Let_def step_state_def split: if_splits list.splits)
        then show ?thesis
          using inv3 led1 led3 turn1 turn3 strict by (simp add: loop_inv_def)
      qed
    qed
  qed
qed

subsection \<open>The whole loop\<close>

lemma player_ledger_card:
  "\<forall>c \<in> player_ledger gs. in_bounds c \<Longrightarrow> finite (player_ledger gs) \<and> card (player_ledger gs) \<le> 100"
proof -
  assume b: "\<forall>c \<in> player_ledger gs. in_bounds c"
  then have sub: "player_ledger gs \<subseteq> Collect in_bounds" by blast
  have "card (player_ledger gs) \<le> card (Collect in_bounds)"
    by (rule card_mono [OF finite_in_bounds(1) sub])
  with finite_subset [OF sub finite_in_bounds(1)] finite_in_bounds(2) show ?thesis
    by simp
qed

text \<open>
  The loop keeps its invariant, and every round that goes on adds a cell to the
  player's ledger, which holds at most the 100 cells of the board: the loop stops within
  \<open>101 - card ledger\<close> rounds whenever it stops.
\<close>

lemma play_loop_inv_bound:
  "play_loop s = Some (e, s') \<Longrightarrow> loop_inv s \<Longrightarrow>
   loop_inv s' \<and> turn (game s') + int (card (player_ledger (game s))) \<le> turn (game s) + 101"
proof -
  define P where "P x y \<longleftrightarrow> (loop_inv x \<longrightarrow>
      loop_inv (snd y) \<and> turn (game (snd y)) + int (card (player_ledger (game x))) \<le> turn (game x) + 101)"
    for x :: loop_state and y :: "game_end \<times> loop_state"
  have step: "P x y"
    if ih: "\<And>x y. f x = Some y \<Longrightarrow> P x y"
      and body: "Option.bind (play_round x) (\<lambda>step. case step of Inl fin \<Rightarrow> Some fin | Inr s' \<Rightarrow> f s') = Some y"
    for f x y
  proof (unfold P_def, intro impI)
    assume inv: "loop_inv x"
    from body obtain st where r: "play_round x = Some st"
      and rest: "(case st of Inl fin \<Rightarrow> Some fin | Inr s' \<Rightarrow> f s') = Some y"
      by (cases "play_round x") auto
    note facts = play_round_step [OF r inv]
    have fin0: "finite (player_ledger (game x))" "card (player_ledger (game x)) \<le> 100"
      using player_ledger_card inv by (auto simp: loop_inv_def)
    show "loop_inv (snd y) \<and> turn (game (snd y)) + int (card (player_ledger (game x))) \<le> turn (game x) + 101"
    proof (cases st)
      case (Inl fin)
      obtain e1 s1 where fin: "fin = (e1, s1)" by (cases fin)
      with Inl rest have "y = (e1, s1)" by simp
      with Inl fin facts fin0 show ?thesis by (simp add: step_state_def)
    next
      case (Inr s1)
      then have s1: "f s1 = Some y" using rest by simp
      have inv1: "loop_inv s1" and turn1: "turn (game s1) = turn (game x) + 1"
        and strict: "player_ledger (game x) \<subset> player_ledger (game s1)"
        using facts Inr by (simp_all add: step_state_def)
      have "finite (player_ledger (game s1))"
        using player_ledger_card inv1 by (auto simp: loop_inv_def)
      then have "card (player_ledger (game x)) < card (player_ledger (game s1))"
        using strict by (rule psubset_card_mono)
      moreover have "loop_inv (snd y) \<and> turn (game (snd y)) + int (card (player_ledger (game s1))) \<le> turn (game s1) + 101"
        using ih [OF s1] inv1 by (simp add: P_def)
      ultimately show ?thesis using turn1 by simp
    qed
  qed
  assume run: "play_loop s = Some (e, s')" and inv: "loop_inv s"
  have "P s (e, s')"
    using step run by (rule play_loop.raw_induct [of P])
  with inv show ?thesis by (simp add: P_def)
qed

subsection \<open>Termination of a game\<close>

lemma loop_inv_init:
  "fleet_wf (map set ps) \<Longrightarrow> fleet_wf (map set bs) \<Longrightarrow>
   loop_inv \<lparr>game = init_game_state ps bs, gen = r, log = None, inputs = inp\<rparr>"
  using init_game_inv [of ps bs] ai_inv_init [of ps bs]
  by (simp add: loop_inv_def player_ledger_def init_game_state_def)

lemma str_to_coord_commands: "str_to_coord ''QUIT'' = Inl ValueError" "str_to_coord ''EXIT'' = Inl ValueError"
  by code_simp+

lemma move_line_cell:
  assumes "in_bounds c"
  shows "get_player_move gs (coord_to_str (fst c) (snd c) # rest) =
           (if is_valid_move c True gs then Some (Some c, rest) else get_player_move gs rest)"
proof -
  obtain r k where c: "c = (r, k)" by (cases c)
  have s: "py_strip (coord_to_str r k) = coord_to_str r k"
    using coord_to_str_word [of r k] assms c by (simp add: py_strip_no_space)
  have u: "map py_upper (coord_to_str r k) = coord_to_str r k"
    using coord_to_str_upper assms c by simp
  have p: "str_to_coord (coord_to_str r k) = Inr (r, k)"
    using assms c by (intro str_to_coord_coord_to_str) (auto simp: in_bounds_def BOARD_SIZE_def)
  have q: "coord_to_str r k \<noteq> ''QUIT''" "coord_to_str r k \<noteq> ''EXIT''"
    using p str_to_coord_commands by auto
  show ?thesis
    using s u p q assms c by (simp add: get_player_move.simps [of _ "_ # rest"] in_bounds_def)
qed

lemma move_line_enter: "get_player_move gs ('''' # rest) = get_player_move gs rest"
  by (simp add: get_player_move.simps [of _ "'''' # rest"] py_strip_def str_to_coord_def)

lemma cell_inputs_Cons [simp]:
  "cell_inputs (c # cs) = coord_to_str (fst c) (snd c) # '''' # cell_inputs cs"
  by (simp add: cell_inputs_def)

lemma get_player_move_cells:
  "list_all in_bounds cells \<Longrightarrow> \<exists>c \<in> set cells. is_valid_move c True gs \<Longrightarrow>
   \<exists>pre c post. cells = pre @ c # post \<and> (\<forall>x \<in> set pre. \<not> is_valid_move x True gs) \<and>
     is_valid_move c True gs \<and> get_player_move gs (cell_inputs cells) = Some (Some c, '''' # cell_inputs post)"
proof (induction cells)
  case Nil
  then show ?case by simp
next
  case (Cons x xs)
  show ?case
  proof (cases "is_valid_move x True gs")
    case True
    then show ?thesis
      using Cons.prems(1)
      by (rule_tac exI [of _ "[]"], rule_tac exI [of _ x], rule_tac exI [of _ xs]) (simp add: move_line_cell)
  next
    case False
    with Cons.prems have "list_all in_bounds xs" "\<exists>c \<in> set xs. is_valid_move c True gs" by auto
    then obtain pre c post where "xs = pre @ c # post" "\<forall>x \<in> set pre. \<not> is_valid_move x True gs"
        "is_valid_move c True gs" "get_player_move gs (cell_inputs xs) = Some (Some c, '''' # cell_inputs post)"
      using Cons.IH by blast
    then show ?thesis
      using False Cons.prems(1)
      by (rule_tac exI [of _ "x # pre"], rule_tac exI [of _ c], rule_tac exI [of _ post])
         (simp add: move_line_cell move_line_enter)
  qed
qed


lemma play_round_None:
  "play_round s = None \<longleftrightarrow> get_player_move ((game s)\<lparr>turn := turn (game s) + 1\<rparr>) (inputs s) = None"
proof (cases "get_player_move ((game s)\<lparr>turn := turn (game s) + 1\<rparr>) (inputs s)")
  case (Some y)
  obtain a rest where y: "y = (a, rest)" by (cases y)
  show ?thesis
  proof (cases a)
    case (Some pc)
    obtain ph pd gs1 where "process_move pc True ((game s)\<lparr>turn := turn (game s) + 1\<rparr>) = ((ph, pd), gs1)"
      by (metis prod.exhaust)
    with Some y \<open>get_player_move _ _ = Some y\<close> show ?thesis
      by (simp add: play_round_def Let_def split: sum.split prod.split list.split)
  qed (use Some y in \<open>simp add: play_round_def\<close>)
qed (simp add: play_round_def)

lemma play_round_continue:
  assumes round: "play_round s = Some (Inr s')"
  shows "\<exists>c x. get_player_move ((game s)\<lparr>turn := turn (game s) + 1\<rparr>) (inputs s) = Some (Some c, x # inputs s') \<and>
           \<not> is_valid_move c True (game s') \<and> \<not> fst (is_game_over (game s')) \<and>
           bot_ships (game s') = bot_ships (game s)"
proof -
  let ?gs = "(game s)\<lparr>turn := turn (game s) + 1\<rparr>"
  obtain y where move0: "get_player_move ?gs (inputs s) = Some y"
    using round play_round_None [of s] by fastforce
  obtain pc rest where move: "get_player_move ?gs (inputs s) = Some (Some pc, rest)"
  proof (cases y)
    case (Pair a rest)
    show ?thesis
    proof (cases a)
      case None
      with move0 Pair round show ?thesis by (simp add: play_round_def)
    qed (use Pair move0 that in blast)
  qed
  obtain ph pd gs1 where m1: "process_move pc True ?gs = ((ph, pd), gs1)"
    by (metis prod.exhaust)
  have over: "\<not> fst (is_game_over gs1)"
    using round move m1 by (auto simp: play_round_def Let_def)
  obtain bc r' where bot: "get_bot_move gs1 (gen s) = Inr (bc, r')"
    using round move m1 over by (auto simp: play_round_def Let_def split: sum.splits)
  obtain bh bd gs2 where m2: "process_move bc False gs1 = ((bh, bd), gs2)"
    by (metis prod.exhaust)
  let ?gs3 = "update_bot_state bc bh bd gs2"
  have over3: "\<not> fst (is_game_over ?gs3)" and rest: "\<exists>x. rest = x # inputs s'" and g3: "game s' = ?gs3"
    using round move m1 over bot m2 by (auto simp: play_round_def Let_def split: if_splits list.splits)
  have "\<not> is_valid_move pc True gs1"
    using process_move_not_valid_after [of pc True ?gs] m1 by simp
  then have "pc \<in> player_ledger gs1"
    by (simp add: is_valid_move_def player_ledger_def)
  then have "pc \<in> player_ledger ?gs3"
    using process_move_bot_ledger [OF m2] by simp
  then have "\<not> is_valid_move pc True ?gs3"
    by (simp add: is_valid_move_def player_ledger_def)
  moreover have "bot_ships ?gs3 = bot_ships (game s)"
    using process_move_side(6) [OF m1] process_move_side(6) [OF m2] by simp
  ultimately show ?thesis
    using move rest over3 g3 by auto
qed


lemma untried_bot_cell:
  assumes inv: "game_inv gs" and over: "\<not> fst (is_game_over gs)"
  shows "\<exists>p \<in> \<Union> (set (bot_ships gs)). p \<notin> player_ledger gs"
proof -
  have "\<not> list_all id (bot_destroyed gs)"
    using over by (auto simp: is_game_over_def split: if_splits)
  then obtain i where i: "i < length (bot_destroyed gs)" "\<not> bot_destroyed gs ! i"
    by (auto simp: list_all_length)
  have side: "side_inv (bot_ships gs) (bot_destroyed gs) (player_hits gs) (player_misses gs)"
    using inv by (simp add: game_inv_def)
  then have len: "i < length (bot_ships gs)" and "\<not> bot_ships gs ! i \<subseteq> player_hits gs"
    using i by (auto simp: side_inv_def)
  then obtain p where p: "p \<in> bot_ships gs ! i" "p \<notin> player_hits gs" by blast
  then have "p \<in> \<Union> (set (bot_ships gs))"
    using len nth_mem by blast
  moreover have "p \<notin> player_misses gs"
    using side calculation by (auto simp: side_inv_def)
  ultimately show ?thesis
    using p(2) by (auto simp: player_ledger_def)
qed

text \<open>
  A player who types every untried cell ends the game: each round that goes on
  consumes the input up to an untried cell and its Enter line, and while the game goes
  on a cell of an undestroyed bot ship is untried.
\<close>

lemma play_loop_cells:
  assumes "loop_inv s" "list_all in_bounds cells" "inputs s = cell_inputs cells"
    "\<forall>c. in_bounds c \<and> c \<notin> player_ledger (game s) \<longrightarrow> c \<in> set cells"
    "\<exists>c \<in> set cells. c \<notin> player_ledger (game s)"
    "\<forall>p \<in> \<Union> (set (bot_ships (game s))). in_bounds p"
  shows "play_loop s \<noteq> None"
  using assms
proof (induction "length cells" arbitrary: s cells rule: less_induct)
  case less
  let ?gs = "(game s)\<lparr>turn := turn (game s) + 1\<rparr>"
  have "\<exists>c \<in> set cells. is_valid_move c True ?gs"
    using less.prems(5) by (simp add: is_valid_move_def player_ledger_def)
  from get_player_move_cells [OF less.prems(2) this]
  obtain pre c post where split: "cells = pre @ c # post"
    and pre: "\<forall>x \<in> set pre. \<not> is_valid_move x True ?gs"
    and move0: "get_player_move ?gs (cell_inputs cells) = Some (Some c, '''' # cell_inputs post)"
    by blast
  have move: "get_player_move ?gs (inputs s) = Some (Some c, '''' # cell_inputs post)"
    using move0 less.prems(3) by simp
  have "play_round s \<noteq> None"
    using move play_round_None [of s] by simp
  then obtain step where round: "play_round s = Some step" by blast
  show ?case
  proof (cases step)
    case (Inl fin)
    then show ?thesis
      using round by (subst play_loop.simps) simp
  next
    case (Inr s1)
    have loop: "play_loop s = play_loop s1"
      using round Inr by (subst play_loop.simps) simp
    obtain c' x where cont: "get_player_move ?gs (inputs s) = Some (Some c', x # inputs s1)"
        "\<not> is_valid_move c' True (game s1)" "\<not> fst (is_game_over (game s1))"
        "bot_ships (game s1) = bot_ships (game s)"
      using play_round_continue [OF round [unfolded Inr]] by blast
    have facts: "loop_inv s1" "player_ledger (game s) \<subseteq> player_ledger (game s1)"
      using play_round_step [OF round less.prems(1)] Inr by (simp_all add: step_state_def)
    have inp: "inputs s1 = cell_inputs post" and c': "c' = c"
      using move cont(1) by simp_all
    have cov: "\<forall>d. in_bounds d \<and> d \<notin> player_ledger (game s1) \<longrightarrow> d \<in> set post"
    proof (intro allI impI)
      fix d
      assume d: "in_bounds d \<and> d \<notin> player_ledger (game s1)"
      then have "d \<in> set cells"
        using less.prems(4) facts(2) by blast
      moreover have "d \<notin> set pre"
        using pre d facts(2) by (auto simp: is_valid_move_def player_ledger_def)
      moreover have "d \<noteq> c"
        using cont(2) c' d by (auto simp: is_valid_move_def player_ledger_def)
      ultimately show "d \<in> set post"
        using split by auto
    qed
    obtain p where p: "p \<in> \<Union> (set (bot_ships (game s1)))" "p \<notin> player_ledger (game s1)"
      using untried_bot_cell [OF _ cont(3)] facts(1) by (auto simp: loop_inv_def)
    have bounds1: "\<forall>p \<in> \<Union> (set (bot_ships (game s1))). in_bounds p"
      using less.prems(6) cont(4) by simp
    have "play_loop s1 \<noteq> None"
    proof (rule less.hyps)
      show "length post < length cells"
        using split by simp
      show "list_all in_bounds post"
        using less.prems(2) split by simp
      have "in_bounds p"
        using bounds1 p(1) by blast
      with cov p(2) have "p \<in> set post" by blast
      with p(2) show "\<exists>c \<in> set post. c \<notin> player_ledger (game s1)" by blast
      show "loop_inv s1" by (rule facts(1))
      show "inputs s1 = cell_inputs post" by (rule inp)
      show "\<forall>d. in_bounds d \<and> d \<notin> player_ledger (game s1) \<longrightarrow> d \<in> set post" by (rule cov)
      show "\<forall>p \<in> \<Union> (set (bot_ships (game s1))). in_bounds p" by (rule bounds1)
    qed
    with loop show ?thesis by simp
  qed
qed

subsection \<open>The log file and the printed turn count\<close>


lemma count_bsn_free: "CHR 0x5C \<notin> set s \<Longrightarrow> count_bsn s = 0"
  by (induction s rule: count_bsn.induct) auto

lemma join_fields_chars: "set (join_fields fs) \<subseteq> insert CHR '','' (set (concat fs))"
  by (induction fs rule: join_fields.induct) auto

lemma csv_text_chars:
  "c \<in> set (csv_text rows) \<Longrightarrow> c \<in> set (concat (concat rows)) \<or> c = CHR '','' \<or> c = CHR 0x0D \<or> c = CHR 0x0A"
proof (induction rows)
  case (Cons row rows)
  then show ?case
    using join_fields_chars [of row] by (auto simp: csv_text_def)
qed (simp add: csv_text_def)

lemma turns_printed_free: "bs_free rows \<Longrightarrow> turns_printed rows = -1"
proof -
  assume "bs_free rows"
  then have "CHR 0x5C \<notin> set (csv_text rows)"
    using csv_text_chars [of "CHR 0x5C" rows] by (auto simp: bs_free_def)
  then show ?thesis
    by (simp add: turns_printed_def count_bsn_free)
qed

lemma py_str_int_free: "CHR 0x5C \<notin> set (py_str_int i)"
proof
  assume "CHR 0x5C \<in> set (py_str_int i)"
  then have "CHR 0x5C \<in> set (nat_str (nat (- i))) \<or> CHR 0x5C \<in> set (nat_str (nat i))"
    by (auto simp: py_str_int_def split: if_splits)
  then obtain d :: nat where d: "d < 10" "CHR 0x5C = char_of (48 + d)"
    using nat_str_digits by blast
  then have "(of_char (CHR 0x5C) :: nat) = 48 + d"
    by simp
  with d(1) show False
    by simp
qed


lemma set_update_sub: "set (AList.update k v al) \<subseteq> insert (k, v) (set al)"
  by (induction al) auto

lemma coord_to_str_free: "in_bounds c \<Longrightarrow> CHR 0x5C \<notin> set (coord_to_str (fst c) (snd c))"
proof -
  assume b: "in_bounds c"
  then have "nat (65 + snd c) < 256"
    by (auto simp: in_bounds_def BOARD_SIZE_def nat_less_iff)
  then have o: "(of_char (char_of (nat (65 + snd c)) :: char) :: nat) = nat (65 + snd c)"
    by (simp add: of_char_of)
  have n: "nat (65 + snd c) \<noteq> 92"
    using b by (auto simp: in_bounds_def BOARD_SIZE_def)
  have "char_of (nat (65 + snd c)) \<noteq> CHR 0x5C"
  proof
    assume "char_of (nat (65 + snd c)) = CHR 0x5C"
    then have "(of_char (char_of (nat (65 + snd c)) :: char) :: nat) = of_char (CHR 0x5C)"
      by simp
    with o n show False
      by simp
  qed
  then show ?thesis
    using py_str_int_free by (simp add: coord_to_str_def)
qed

lemma save_state_free:
  assumes "case file of None \<Rightarrow> True | Some rows \<Rightarrow> bs_free rows"
    and "\<forall>p \<in> set info. CHR 0x5C \<notin> set (snd p)"
  shows "bs_free (save_state_to_csv gs file info)"
proof -
  have rows: "bs_free (case file of None \<Rightarrow> [log_header] | Some rs \<Rightarrow> rs)"
    using assms(1) by (auto simp: bs_free_def log_header_def split: option.splits)
  have "CHR 0x5C \<notin> set (info_get info k)" for k
  proof (cases "map_of info k")
    case (Some v)
    then have "(k, v) \<in> set info"
      by (rule map_of_SomeD)
    with assms(2) Some show ?thesis
      by (force simp: info_get_def)
  qed (simp add: info_get_def)
  with rows show ?thesis
    by (auto simp: save_state_to_csv_def Let_def bs_free_def py_str_int_free)
qed

lemma result_str_free: "CHR 0x5C \<notin> set (result_str h d)"
  by (simp add: result_str_def)

lemma info_free:
  assumes "\<forall>p \<in> set al. CHR 0x5C \<notin> set (snd p)" and "CHR 0x5C \<notin> set v"
  shows "\<forall>p \<in> set (AList.update k v al). CHR 0x5C \<notin> set (snd p)"
  using assms set_update_sub [of k v al] by auto

lemma play_round_log:
  assumes round: "play_round s = Some step"
  shows "turn (game (step_state step)) = turn (game s) + 1 \<and>
         ((\<exists>s'. step = Inl (Quit, s')) \<longrightarrow> log (step_state step) = log s) \<and>
         ((\<forall>s'. step \<noteq> Inl (Quit, s')) \<and> (\<forall>e s'. step \<noteq> Inl (Crash e, s')) \<longrightarrow>
            logged_by (log s) (log (step_state step))) \<and>
         (log (step_state step) = log s \<or> logged_by (log s) (log (step_state step)))"
proof -
  let ?gs = "(game s)\<lparr>turn := turn (game s) + 1\<rparr>"
  show ?thesis
  proof (cases rule: player_move_cases [of ?gs "inputs s"])
    case div
    then show ?thesis using round by (simp add: play_round_def)
  next
    case (quit rest)
    then have "step = Inl (Quit, s\<lparr>game := ?gs, inputs := rest\<rparr>)"
      using round by (simp add: play_round_def)
    then show ?thesis by (simp add: step_state_def)
  next
    case (move pc rest)
    have pcb: "in_bounds pc"
      using get_player_move_Some_move [OF move] by simp
    obtain ph pd gs1 where m1: "process_move pc True ?gs = ((ph, pd), gs1)"
      by (metis prod.exhaust)
    have turn1: "turn gs1 = turn (game s) + 1"
      using process_move_side(7) [OF m1] by simp
    let ?info1 = "AList.update ''player_result'' (result_str ph pd)
                    [(''player_move'', coord_to_str (fst pc) (snd pc))]"
    have f1: "\<forall>p \<in> set ?info1. CHR 0x5C \<notin> set (snd p)"
      using coord_to_str_free [OF pcb] by (intro info_free) (simp_all add: result_str_free)
    have ne1: "?info1 \<noteq> []"
      by (simp add: update_conv')
    show ?thesis
    proof (cases "fst (is_game_over gs1)")
      case True
      then have "step = Inl (PlayerWins, \<lparr>game = gs1, gen = gen s,
                                         log = Some (save_state_to_csv gs1 (log s) ?info1), inputs = rest\<rparr>)"
        using round move m1 by (simp add: play_round_def Let_def)
      moreover have "logged_by (log s) (Some (save_state_to_csv gs1 (log s) ?info1))"
        unfolding logged_by_def using f1 ne1 by blast
      ultimately show ?thesis
        using turn1 by (simp add: step_state_def)
    next
      case over: False
      show ?thesis
      proof (cases "get_bot_move gs1 (gen s)")
        case (Inl e)
        then have "step = Inl (Crash e, s\<lparr>game := gs1, inputs := rest\<rparr>)"
          using round move m1 over by (simp add: play_round_def Let_def)
        then show ?thesis
          using turn1 by (simp add: step_state_def)
      next
        case (Inr br)
        obtain bc r' where br: "br = (bc, r')" by (cases br)
        have bcb: "in_bounds bc"
          using get_bot_move_ok [of gs1 "gen s" bc r'] Inr br by simp
        obtain bh bd gs2 where m2: "process_move bc False gs1 = ((bh, bd), gs2)"
          by (metis prod.exhaust)
        let ?gs3 = "update_bot_state bc bh bd gs2"
        let ?info2 = "AList.update ''bot_result'' (result_str bh bd)
                        (AList.update ''bot_move'' (coord_to_str (fst bc) (snd bc)) ?info1)"
        have f2: "\<forall>p \<in> set ?info2. CHR 0x5C \<notin> set (snd p)"
          using f1 coord_to_str_free [OF bcb] by (intro info_free) (simp_all add: result_str_free)
        have ne2: "?info2 \<noteq> []"
          by (simp add: update_conv')
        have turn3: "turn ?gs3 = turn (game s) + 1"
          using process_move_side(7) [OF m2] turn1 by simp
        have st: "game (step_state step) = ?gs3 \<and>
                  log (step_state step) = Some (save_state_to_csv ?gs3 (log s) ?info2) \<and>
                  (\<forall>s'. step \<noteq> Inl (Quit, s'))"
        proof (cases "fst (is_game_over ?gs3)")
          case True
          then have "step = Inl (BotWins, \<lparr>game = ?gs3, gen = r',
                        log = Some (save_state_to_csv ?gs3 (log s) ?info2), inputs = rest\<rparr>)"
            using round move m1 over Inr br m2 by (simp add: play_round_def Let_def)
          then show ?thesis by (simp add: step_state_def)
        next
          case over3: False
          show ?thesis
          proof (cases rest)
            case Nil
            then have "step = Inl (Crash EOFError, \<lparr>game = ?gs3, gen = r',
                          log = Some (save_state_to_csv ?gs3 (log s) ?info2), inputs = []\<rparr>)"
              using round move m1 over Inr br m2 over3 by (simp add: play_round_def Let_def)
            then show ?thesis by (simp add: step_state_def)
          next
            case (Cons x rest')
            then have "step = Inr \<lparr>game = ?gs3, gen = r',
                          log = Some (save_state_to_csv ?gs3 (log s) ?info2), inputs = rest'\<rparr>"
              using round move m1 over Inr br m2 over3 by (simp add: play_round_def Let_def)
            then show ?thesis by (simp add: step_state_def)
          qed
        qed
        moreover have "logged_by (log s) (Some (save_state_to_csv ?gs3 (log s) ?info2))"
          unfolding logged_by_def using f2 ne2 by blast
        ultimately show ?thesis
          using turn3 by simp
      qed
    qed
  qed
qed

lemma play_loop_final:
  assumes run: "play_loop s = Some fin" and q: "Q s"
    and step: "\<And>x x'. play_round x = Some (Inr x') \<Longrightarrow> Q x \<Longrightarrow> Q x'"
  shows "\<exists>x. Q x \<and> play_round x = Some (Inl fin)"
proof -
  define P where "P x y \<longleftrightarrow> (Q x \<longrightarrow> (\<exists>z. Q z \<and> play_round z = Some (Inl y)))"
    for x :: loop_state and y :: "game_end \<times> loop_state"
  have ind: "P x y"
    if ih: "\<And>x y. f x = Some y \<Longrightarrow> P x y"
      and body: "Option.bind (play_round x) (\<lambda>step. case step of Inl fin \<Rightarrow> Some fin | Inr s' \<Rightarrow> f s') = Some y"
    for f x y
  proof (unfold P_def, intro impI)
    assume qx: "Q x"
    from body obtain st where r: "play_round x = Some st"
      and rest: "(case st of Inl fin \<Rightarrow> Some fin | Inr s' \<Rightarrow> f s') = Some y"
      by (cases "play_round x") auto
    show "\<exists>z. Q z \<and> play_round z = Some (Inl y)"
    proof (cases st)
      case (Inl fin')
      with rest r qx show ?thesis by auto
    next
      case (Inr x')
      with rest have "f x' = Some y" by simp
      then have "P x' y" by (rule ih)
      moreover have "Q x'"
        using step [OF r [unfolded Inr] qx] .
      ultimately show ?thesis by (simp add: P_def)
    qed
  qed
  have "P s fin"
    using ind run by (rule play_loop.raw_induct [of P])
  with q show ?thesis by (simp add: P_def)
qed





lemma logged_by_free:
  assumes "logged_by old new" and "case old of None \<Rightarrow> True | Some rows \<Rightarrow> bs_free rows"
  shows "case new of None \<Rightarrow> True | Some rows \<Rightarrow> bs_free rows"
proof -
  obtain gs info where "\<forall>p \<in> set info. CHR 0x5C \<notin> set (snd p)"
    and new: "new = Some (save_state_to_csv gs old info)"
    using assms(1) by (auto simp: logged_by_def)
  with assms(2) have "bs_free (save_state_to_csv gs old info)"
    by (intro save_state_free)
  with new show ?thesis by simp
qed

lemma play_round_free:
  assumes "play_round x = Some step" and "case log x of None \<Rightarrow> True | Some rows \<Rightarrow> bs_free rows"
  shows "case log (step_state step) of None \<Rightarrow> True | Some rows \<Rightarrow> bs_free rows"
  using play_round_log [OF assms(1)] logged_by_free [OF _ assms(2)] assms(2) by auto

lemma main_GameOver:
  assumes "main inp r = Some (GameOver e n)"
  shows "\<exists>ps bs r' rest s rows. play_game ps bs r' rest = Some (e, s) \<and> log s = Some rows \<and>
           n = turns_printed rows"
proof -
  obtain cfg rest r' where su: "setup_game inp r = Some (cfg, rest, r')"
    using assms by (cases "setup_game inp r") (auto simp: main_def)
  obtain ps bs f1 f2 where cfg: "cfg = Some (ps, bs, f1, f2)"
    using assms su by (cases cfg) (auto simp: main_def)
  obtain x rest' where rest: "rest = x # rest'"
    using assms su cfg by (cases rest) (auto simp: main_def)
  obtain e' s where pg: "play_game ps bs r' rest' = Some (e', s)"
    using assms su cfg rest by (cases "play_game ps bs r' rest'") (auto simp: main_def)
  have m: "main inp r = (case e' of Crash err \<Rightarrow> Some (MainError err)
             | _ \<Rightarrow> (case log s of None \<Rightarrow> Some (MainError FileNotFoundError)
                    | Some rows \<Rightarrow> Some (GameOver e' (turns_printed rows))))"
    using su cfg rest pg by (simp add: main_def)
  obtain rows where "log s = Some rows" and "e' = e" and "n = turns_printed rows"
    using assms m by (cases e'; cases "log s") simp_all
  with pg show ?thesis by blast
qed

subsection \<open>Properties of the loops\<close>

text \<open>The example fleet typed in, followed by the line for \<^verbatim>\<open>Press Enter\<close> and a quit.\<close>

lemma example_player_ships:
  "get_player_ships (map ship_text example_fleet @ ['''', ''quit'']) = Some (example_fleet, ['''', ''quit''])"
  unfolding get_player_ships_def example_fleet_def SHIP_SIZES_def by code_simp

text \<open>With one-cell fleets, \<^verbatim>\<open>J10\<close> sinks the bot's ship at the first move, whatever the stream.\<close>

lemma single_cell_game:
  "map_option fst (play_game [[(0, 0)]] [[(9, 9)]] r [''j10'']) = Some PlayerWins"
  unfolding play_game_def by code_simp

lemma single_cell_run: "\<exists>s'. play_game [[(0, 0)]] [[(9, 9)]] example_stream [''j10''] = Some (PlayerWins, s')"
proof -
  obtain y where y: "play_game [[(0, 0)]] [[(9, 9)]] example_stream [''j10''] = Some y" and "fst y = PlayerWins"
    using single_cell_game [of example_stream] by (cases "play_game [[(0, 0)]] [[(9, 9)]] example_stream [''j10'']") auto
  then show ?thesis
    by (cases y) auto
qed

text \<open>
  The example fleet typed in, Enter, the shot \<^verbatim>\<open>a1\<close>, Enter after the bot's
  reply, and a quit at the second turn: \<^verbatim>\<open>main\<close> prints \<^verbatim>\<open>-1\<close> turns.
\<close>

lemma example_quit_second_turn:
  "main (map ship_text example_fleet @ ['''', ''a1'', '''', ''quit'']) example_stream = Some (GameOver Quit (-1))"
  unfolding example_fleet_def example_stream_def example_draws_def SHIP_SIZES_def BOARD_SIZE_def
  by code_simp


text \<open>
  C31: every fleet \<^verbatim>\<open>get_player_ships\<close> returns is the cancelled set-up
  \<open>[]\<close> or a valid fleet of the sizes \<open>SHIP_SIZES\<close>: straight, disjoint and
  not touching.
\<close>

theorem get_player_ships_valid:
  "get_player_ships inp = Some (ships, rest) \<Longrightarrow> ships = [] \<or> fleet_valid SHIP_SIZES (map set ships)"
  unfolding get_player_ships_def
  using placement_loop_valid [of SHIP_SIZES "[]" "{}" inp ships rest "[]"] fleet_valid_Nil by simp

text \<open>
  C32: on an exhausted standard input \<^verbatim>\<open>get_player_ships\<close> never returns:
  its \<^verbatim>\<open>except Exception\<close> catches the \<^verbatim>\<open>EOFError\<close> and loops.
\<close>

theorem get_player_ships_eof: "get_player_ships [] = None"
  unfolding get_player_ships_def SHIP_SIZES_def by (rule placement_loop_eof)

text \<open>
  C34: a game started on two well-formed fleets that ends keeps the invariants of the
  game state and of the bot's memory, and lasts at most 101 turns: every turn that
  goes on adds an untried cell to the player's ledger.
\<close>

theorem play_game_inv_bound:
  assumes "fleet_wf (map set ps)" and "fleet_wf (map set bs)"
    and "play_game ps bs r inp = Some (e, s')"
  shows "game_inv (game s') \<and> ai_inv (game s') \<and> turn (game s') \<le> 101"
proof -
  let ?s = "\<lparr>game = init_game_state ps bs, gen = r, log = None, inputs = inp\<rparr>"
  have "loop_inv ?s"
    using assms(1,2) by (rule loop_inv_init)
  with assms(3) play_loop_inv_bound [of ?s e s'] show ?thesis
    by (simp add: play_game_def loop_inv_def init_game_state_def player_ledger_def)
qed

text \<open>
  C35: a player who quits at the first move makes \<^verbatim>\<open>main\<close> end in
  \<^verbatim>\<open>FileNotFoundError\<close>: no turn was logged, so
  \<^verbatim>\<open>data/game_log.csv\<close> does not exist when \<^verbatim>\<open>main\<close> opens
  it to count the turns.
\<close>

theorem main_quit_first_turn:
  assumes "get_player_ships inp = Some (ps, enter # q # rest)" and "ps \<noteq> []"
    and "generate_bot_ships r = Some (bs, r')" and "map py_upper (py_strip q) = ''QUIT''"
  shows "main inp r = Some (MainError FileNotFoundError)"
proof -
  let ?gs = "(init_game_state ps bs)\<lparr>turn := 1\<rparr>"
  have "get_player_move ?gs (q # rest) = Some (None, rest)"
    using assms(4) by (simp add: get_player_move.simps [of _ "q # rest"])
  then have "play_round \<lparr>game = init_game_state ps bs, gen = r', log = None, inputs = q # rest\<rparr> =
             Some (Inl (Quit, \<lparr>game = ?gs, gen = r', log = None, inputs = rest\<rparr>))"
    by (simp add: play_round_def init_game_state_def)
  then have "play_game ps bs r' (q # rest) = Some (Quit, \<lparr>game = ?gs, gen = r', log = None, inputs = rest\<rparr>)"
    unfolding play_game_def by (subst play_loop.simps) simp
  with assms(1-3) show ?thesis
    by (simp add: main_def setup_game_def)
qed

text \<open>
  C36: a game between two valid fleets ends when the player types the 100 cells of the
  board in row-major order, pressing Enter after every turn, whatever the random
  stream.
\<close>

theorem play_game_terminates:
  assumes "fleet_valid SHIP_SIZES (map set ps)" and "fleet_valid SHIP_SIZES (map set bs)"
  shows "\<exists>e s'. play_game ps bs r (cell_inputs board_cells) = Some (e, s')"
proof -
  let ?s = "\<lparr>game = init_game_state ps bs, gen = r, log = None, inputs = cell_inputs board_cells\<rparr>"
  have inv: "loop_inv ?s"
    by (rule loop_inv_init [OF fleet_valid_wf [OF assms(1)] fleet_valid_wf [OF assms(2)]])
  have cells: "list_all in_bounds board_cells"
    using board_cells_in_bounds by (simp add: list_all_iff)
  have cover: "\<forall>c. in_bounds c \<and> c \<notin> player_ledger (game ?s) \<longrightarrow> c \<in> set board_cells"
    using in_bounds_board_cells by blast
  have "(0, 0) \<in> set board_cells"
    by (rule in_bounds_board_cells) (simp add: in_bounds_def BOARD_SIZE_def)
  then have some: "\<exists>c \<in> set board_cells. c \<notin> player_ledger (game ?s)"
    by (auto simp: player_ledger_def init_game_state_def)
  have bounds: "\<forall>p \<in> \<Union> (set (bot_ships (game ?s))). in_bounds p"
  proof
    fix p
    assume "p \<in> \<Union> (set (bot_ships (game ?s)))"
    then obtain S where S: "S \<in> set bs" and pS: "p \<in> set S"
      by (auto simp: init_game_state_def)
    from S obtain i where i: "i < length bs" and "bs ! i = S"
      by (auto simp: in_set_conv_nth)
    with pS have p: "p \<in> set (bs ! i)" by simp
    have "ship_ok (set (bs ! i)) (SHIP_SIZES ! i)"
      using assms(2) i by (simp add: fleet_valid_def)
    with p show "in_bounds p"
      by (simp add: ship_ok_def)
  qed
  have "play_loop ?s \<noteq> None"
    by (rule play_loop_cells [OF inv cells _ cover some bounds]) simp
  then show ?thesis
    by (auto simp: play_game_def)
qed


text \<open>
  C25: on Python 3.12 and later, every game that ends normally makes \<^verbatim>\<open>main\<close> print
  \<^verbatim>\<open>Total turns: -1\<close>: the log file holds no backslash, so
  \<^verbatim>\<open>count('\\n')\<close> is 0.
\<close>

theorem main_turns_printed:
  assumes "main inp r = Some (GameOver e n)"
  shows "n = -1"
proof -
  obtain ps bs r' rest s rows where pg: "play_game ps bs r' rest = Some (e, s)"
    and rows: "log s = Some rows" and n: "n = turns_printed rows"
    using main_GameOver [OF assms] by blast
  let ?Q = "\<lambda>x. case log x of None \<Rightarrow> True | Some rows \<Rightarrow> bs_free rows"
  let ?s = "\<lparr>game = init_game_state ps bs, gen = r', log = None, inputs = rest\<rparr>"
  obtain x where "?Q x" and "play_round x = Some (Inl (e, s))"
    using play_loop_final [of ?s "(e, s)" ?Q] pg play_round_free [where step = "Inr _"]
    by (fastforce simp: play_game_def step_state_def)
  then have "?Q s"
    using play_round_free [of x "Inl (e, s)"] by (simp add: step_state_def)
  with rows n show ?thesis
    by (simp add: turns_printed_free)
qed

subsection \<open>Witnesses\<close>

text \<open>C35, witness: the example fleet typed in, then a quit at the first move.\<close>

theorem main_quit_first_turn_witness:
  "main (map ship_text example_fleet @ ['''', ''quit'']) example_stream = Some (MainError FileNotFoundError)"
proof -
  obtain r' where gen: "generate_bot_ships example_stream = Some (example_fleet, r')"
    using generate_example by blast
  have q: "map py_upper (py_strip ''quit'') = ''QUIT''" by code_simp
  have ne: "example_fleet \<noteq> []" by (simp add: example_fleet_def)
  show ?thesis
    using main_quit_first_turn [OF example_player_ships ne gen q] .
qed

text \<open>C31, witness: the example fleet typed in is returned and valid.\<close>

theorem get_player_ships_valid_witness:
  "get_player_ships (map ship_text example_fleet @ ['''', ''quit'']) = Some (example_fleet, ['''', ''quit'']) \<and>
   (example_fleet = [] \<or> fleet_valid SHIP_SIZES (map set example_fleet))"
  using get_player_ships_valid [OF example_player_ships] example_player_ships by simp

text \<open>C34, witness: one-cell fleets, the player sinks the bot's ship at the first move.\<close>

theorem play_game_inv_bound_witness:
  "\<exists>s'. play_game [[(0, 0)]] [[(9, 9)]] example_stream [''j10''] = Some (PlayerWins, s') \<and>
        game_inv (game s') \<and> ai_inv (game s') \<and> turn (game s') \<le> 101"
proof -
  obtain s' where run: "play_game [[(0, 0)]] [[(9, 9)]] example_stream [''j10''] = Some (PlayerWins, s')"
    using single_cell_run by blast
  have wf: "fleet_wf (map set [[(0::int, 0::int)]])" "fleet_wf (map set [[(9::int, 9::int)]])"
    by (simp_all add: fleet_wf_single)
  show ?thesis
    using play_game_inv_bound [OF wf run] run by blast
qed

text \<open>C36, witness: the example fleet on both sides.\<close>

theorem play_game_terminates_witness:
  "\<exists>e s'. play_game example_fleet example_fleet example_stream (cell_inputs board_cells) = Some (e, s')"
  using play_game_terminates [OF example_fleet_valid example_fleet_valid] .


text \<open>C25, witness: the game quit at the second turn.\<close>

theorem main_turns_printed_witness:
  "\<exists>n. main (map ship_text example_fleet @ ['''', ''a1'', '''', ''quit'']) example_stream = Some (GameOver Quit n) \<and>
       n = -1"
  using main_turns_printed [OF example_quit_second_turn] example_quit_second_turn by blast

end
