(* ===== verification/Spec2Isabelle.thy ===== *)
theory Spec2Isabelle
  imports GameLoop
begin

text \<open>
  A verification development for the Battleship engine of the repository
  (\<^verbatim>\<open>src/main.py\<close> and \<^verbatim>\<open>src/src/*.py\<close>): a shallow embedding of the
  Python code in executable HOL definitions, with the theorems that make it correct.

  \<^bold>\<open>The program.\<close>  \<^verbatim>\<open>utils.py\<close> holds the board geometry, the coordinate
  notation and the CSV helpers; \<^verbatim>\<open>ship_input.py\<close> parses and validates the
  player's ships; \<^verbatim>\<open>bot_generation.py\<close> draws the bot's fleet at random;
  \<^verbatim>\<open>gameplay.py\<close> holds the class \<^verbatim>\<open>GameState\<close>: both fleets, the shot
  ledgers, the destroyed flags, the bot's targeting memory, the shot resolution
  \<^verbatim>\<open>process_move\<close>, the bot's move choice and the win test;
  \<^verbatim>\<open>main.py\<close> runs the set-up and the turn loop.

  \<^bold>\<open>Theories and their correspondence to the code.\<close>
  \<^item> \<open>Prelude\<close>: the coordinate type (Python pairs of unbounded \<open>int\<close>), the
    exception type \<open>py_error\<close>, named fact collections and generic list lemmas.
  \<^item> \<open>Geometry\<close> (\<^verbatim>\<open>utils.py\<close>): \<open>BOARD_SIZE\<close>, \<open>SHIP_SIZES\<close>,
    \<open>in_bounds\<close>, \<open>get_adjacent_cells\<close> (the direction list kept in the source's
    order) and \<open>get_surrounding_cells\<close>.
  \<^item> \<open>Placement\<close> (\<^verbatim>\<open>utils.py\<close>, \<^verbatim>\<open>ship_input.py\<close>): \<open>ships_touch\<close>,
    \<open>validate_ship_shape\<close> (with Python's \<^verbatim>\<open>sorted(set(..))\<close>, \<^verbatim>\<open>min\<close>,
    \<^verbatim>\<open>max\<close> and \<^verbatim>\<open>range\<close>), and \<open>place_ship\<close>, one accepted iteration of
    the placement loop of \<^verbatim>\<open>get_player_ships\<close> with its rejections as the
    values of \<open>placement_error\<close>; and the specification's fleet validity
    \<open>fleet_valid\<close> (straight runs \<open>hrun\<close>/\<open>vrun\<close>, no shared cell, no
    8-neighbourhood contact).
  \<^item> \<open>Notation\<close> (\<^verbatim>\<open>utils.py\<close>, \<^verbatim>\<open>ship_input.py\<close>):
    \<open>coord_to_str\<close>, \<open>str_to_coord\<close> and \<open>parse_ship_input\<close>, over models of the
    builtins \<^verbatim>\<open>str(int)\<close>, \<^verbatim>\<open>int(str)\<close>, \<^verbatim>\<open>strip\<close>,
    \<^verbatim>\<open>split\<close> and \<^verbatim>\<open>upper\<close> on ASCII strings; Python exceptions are
    \<open>Inl\<close> values.
  \<^item> \<open>GameState\<close> (\<^verbatim>\<open>gameplay.py\<close>): the record \<open>game_state\<close> has one field
    per attribute of \<^verbatim>\<open>GameState.__init__\<close>; \<open>is_valid_move\<close>,
    \<open>process_move\<close> (both branches written out as in the source),
    \<open>mark_surrounding_as_miss\<close> and \<open>is_game_over\<close> return the updated state
    explicitly.  \<open>shoot\<close> is one side's resolution, the common form of the two
    branches, and \<open>run_moves\<close> a sequence of shots.
  \<^item> \<open>Rng\<close>: the module \<^verbatim>\<open>random\<close> as a stream of natural draws with a
    position: \<open>randbelow\<close>, \<open>randint\<close>, \<open>choice\<close> and the Fisher-Yates
    \<open>shuffle\<close> of CPython.  Every theorem quantifies over the stream, so it holds
    whatever the generator yields.
  \<^item> \<open>BotAI\<close> (\<^verbatim>\<open>gameplay.py\<close>): \<open>get_bot_move\<close>,
    \<open>get_smart_target_move\<close> (\<open>extension_candidates\<close> for two or more hits),
    \<open>get_random_move\<close> (1000 draws in \<open>random_attempts\<close>, then the row-major scan
    \<open>board_cells\<close>, then the exception \<open>NoValidMoves\<close>) and
    \<open>update_bot_state\<close>; and the specification's hunt/target machine
    \<open>ai_mode\<close>/\<open>ai_step\<close> with the abstraction \<open>ai_abs\<close>.
  \<^item> \<open>Generator\<close> (\<^verbatim>\<open>bot_generation.py\<close>): one attempt \<open>draw_ship\<close>,
    the 1000-attempt loop \<open>place_attempts\<close>, the loop over the sizes
    \<open>place_fleet\<close>, and the restart recursion \<open>generate_bot_ships\<close> as a
    \<open>partial_function (option)\<close>, \<open>None\<close> being a run that never returns.
  \<^item> \<open>Persistence\<close> (\<^verbatim>\<open>utils.py\<close>, \<^verbatim>\<open>gameplay.py\<close>): the CSV
    files as lists of rows of string fields: \<open>save_ships_to_csv\<close>,
    \<open>load_ships_from_csv\<close> (the rules of \<^verbatim>\<open>csv.DictReader\<close>, the dict
    \<^verbatim>\<open>ships_dict\<close> as an association list, whose update keeps the insertion
    order) and \<open>save_state_to_csv\<close>, the turn log.
  \<^item> \<open>GameLoop\<close> (\<^verbatim>\<open>main.py\<close>, \<^verbatim>\<open>ship_input.py\<close>): standard input is
    the list of lines still to be read.  The loop of \<^verbatim>\<open>get_player_ships\<close>
    (\<open>placement_loop\<close>) and \<^verbatim>\<open>get_player_move\<close> catch every exception and
    ask again, so they are \<open>partial_function (option)\<close>s; \<open>play_round\<close> is one
    iteration of the \<^verbatim>\<open>while True\<close> of \<^verbatim>\<open>play_game\<close>, returning
    \<open>Inl\<close> for a \<^verbatim>\<open>break\<close> or an uncaught exception, and \<open>play_loop\<close>
    iterates it; the record \<open>loop_state\<close> holds the game state, the random stream,
    the log file (\<open>None\<close> while it does not exist) and the input.  \<open>setup_game\<close>
    and \<open>main\<close> compose placement, generation, the ship files, the game and the
    number printed as the total of turns (\<open>turns_printed\<close>: \<^verbatim>\<open>count('\\n')\<close>
    on the text \<open>csv_text\<close> of the log), exceptions becoming \<open>MainError\<close>.

  \<^bold>\<open>What is proved.\<close>
  \<^item> Shot resolution (GameState): the invariant \<open>game_inv\<close> (valid fleets,
    hit and miss sets disjoint, hits on ships, misses off ships, destroyed flags exactly
    the ships inside the hit set) is preserved by \<open>process_move\<close>; its result on every
    branch; idempotence on a sunk ship; the sealing of the ring around a sunk ship; no
    cell is tried twice; the win test; a shot raises the number of sunk ships by one
    exactly when it reports a ship destroyed.
  \<^item> Opponent AI (BotAI): the move is in bounds and untried; the exception is raised
    exactly when the bot has tried all 100 cells; the extension moves for a row of hits
    and for a single hit; \<open>update_bot_state\<close> refines the tagged hunt/target machine;
    hits in different rows and columns are extended as a column, off both hits.
  \<^item> Placement: \<open>validate_ship_shape\<close> accepts exactly the straight runs of the
    declared size; an accepted placement keeps the fleet valid.
  \<^item> Notation: round trips of the notation and of the ship input; the ship parser
    agrees with \<open>str_to_coord\<close> plus a bounds check and is all-or-nothing;
    \<open>str_to_coord\<close> reads infinitely many spellings of every cell.
  \<^item> Generator: every fleet returned is valid; every valid fleet is returned for some
    stream; on the all-zero stream the generator never returns.
  \<^item> Persistence: the ship files round-trip for every fleet, ships without cells
    vanishing; the turn-log row holds the turn, the moves and the ships remaining per side;
    the loader raises exactly on a malformed non-empty row and never returns part of a
    fleet.
  \<^item> Game loop: \<open>get_player_ships\<close> returns a valid fleet or the cancellation; a
    game on well-formed fleets keeps the invariants and lasts at most 101 turns; a game
    between valid fleets ends when the player types every cell of the board
    (\<open>cell_inputs\<close>), whatever the random stream; on an exhausted input both input
    loops never return; a quit at the first move ends \<open>main\<close> in
    \<^verbatim>\<open>FileNotFoundError\<close>;
    the log holds a header and one row per turn; on Python 3.12 and later every game
    \<open>main\<close> ends normally prints \<^verbatim>\<open>-1\<close> turns (before 3.12 the
    backslash in the f-string of \<^verbatim>\<open>main.py\<close> line 176 is a syntax error).

  \<^bold>\<open>Bounds and fuel.\<close>  No fuel is used.  The loops bounded in the source are
  bounded in the model by the same constants: 1000 random draws in
  \<^verbatim>\<open>_get_random_move\<close>, 1000 attempts per ship in \<^verbatim>\<open>generate_bot_ships\<close>,
  the 100 board cells of the fallback scan.  The one loop the source does not bound,
  the restart recursion of the generator, is a \<open>partial_function (option)\<close>, and the
  development proves both that it returns on a suitable stream and that it need not.
  The input loops of \<open>GameLoop\<close> and the game loop are \<open>partial_function
  (option)\<close>s too; the bound of 101 turns comes from the player's ledger, which
  grows by an untried board cell every turn that goes on and holds at most 100.

  \<^bold>\<open>Not modelled.\<close>  Printing and the board display (\<^verbatim>\<open>display_boards\<close>,
  \<^verbatim>\<open>display_placement_board\<close>), \<^verbatim>\<open>clear_screen\<close>, directory creation
  and the self-test \<^verbatim>\<open>test_generation\<close> are output only.  A
  \<^verbatim>\<open>KeyboardInterrupt\<close> is not an input of the model.  The files are lists of
  rows; their text is modelled only for the turn count of \<^verbatim>\<open>main\<close>, as the
  fields joined by commas with \<^verbatim>\<open>\r\n\<close> line ends (the fields need no quoting), and
  characters outside ASCII are outside the string model.
\<close>

end
